theory Spec2Isabelle
  imports Complex_Main "HOL-Library.AList" "HOL-Library.Sublist"
begin

section \<open>Python values, dictionaries and exceptions\<close>

text \<open>
  The workflow of \<^verbatim>\<open>src/swarm/workflows/outbreak_detection_workflow.py\<close> computes on
  untyped Python dictionaries. A dictionary is an association list in insertion order with
  string keys; \<open>AList.update\<close> is Python's item assignment (an existing key keeps its
  position, a new key is appended).
\<close>

datatype pyval =
    PNone
  | PBool bool
  | PInt int
  | PStr string
  | PList "pyval list"
  | PDict "(string \<times> pyval) list"

type_synonym dict = "(string \<times> pyval) list"

text \<open>
  The exceptions of the model are instances of classes deriving from \<^verbatim>\<open>Exception\<close>: the
  built-in ones that the code itself raises, and \<open>AgentError\<close> for an exception of an agent's
  own. Both handlers of the source are \<^verbatim>\<open>except Exception\<close>, so each of these values is one
  that they catch. An exception outside \<^verbatim>\<open>Exception\<close> (\<^verbatim>\<open>KeyboardInterrupt\<close>,
  \<^verbatim>\<open>SystemExit\<close>, \<^verbatim>\<open>asyncio.CancelledError\<close>) is caught by neither handler and leaves
  \<^verbatim>\<open>execute\<close>; no value of this type stands for one, and every statement below is about
  runs in which none is raised.
\<close>

datatype error =
    AttributeError string
  | KeyError string
  | TypeError string
  | ValueError string
  | IndexError string
  | AgentError string

definition quoted :: "string \<Rightarrow> string" where
  "quoted s = CHR 0x27 # s @ [CHR 0x27]"

text \<open>
  \<^verbatim>\<open>str(e)\<close>: every value carries the text that \<^verbatim>\<open>str\<close> gives for it. For a KeyError
  that text is the repr of the missing key, which the place that raises it writes out.
\<close>

fun str_of :: "error \<Rightarrow> string" where
  "str_of (AttributeError m) = m"
| "str_of (KeyError m) = m"
| "str_of (TypeError m) = m"
| "str_of (ValueError m) = m"
| "str_of (IndexError m) = m"
| "str_of (AgentError m) = m"

fun type_name :: "pyval \<Rightarrow> string" where
  "type_name PNone = ''NoneType''"
| "type_name (PBool b) = ''bool''"
| "type_name (PInt i) = ''int''"
| "type_name (PStr s) = ''str''"
| "type_name (PList l) = ''list''"
| "type_name (PDict d) = ''dict''"

definition no_attribute :: "pyval \<Rightarrow> string \<Rightarrow> error" where
  "no_attribute v a =
     AttributeError (quoted (type_name v) @ '' object has no attribute '' @ quoted a)"

text \<open>Python truthiness, as \<^verbatim>\<open>if x:\<close> and \<^verbatim>\<open>not x\<close> read a value.\<close>

fun truthy :: "pyval \<Rightarrow> bool" where
  "truthy PNone = False"
| "truthy (PBool b) = b"
| "truthy (PInt i) = (i \<noteq> 0)"
| "truthy (PStr s) = (s \<noteq> [])"
| "truthy (PList l) = (l \<noteq> [])"
| "truthy (PDict d) = (d \<noteq> [])"

text \<open>\<^verbatim>\<open>d.get(k, default)\<close> on a value known to be a dictionary.\<close>

definition dict_get :: "dict \<Rightarrow> string \<Rightarrow> pyval \<Rightarrow> pyval" where
  "dict_get d k dflt = (case map_of d k of None \<Rightarrow> dflt | Some v \<Rightarrow> v)"

text \<open>\<^verbatim>\<open>v.get(k, default)\<close> on any value: only a dictionary has the method.\<close>

fun py_get :: "pyval \<Rightarrow> string \<Rightarrow> pyval \<Rightarrow> error + pyval" where
  "py_get (PDict d) k dflt = Inr (dict_get d k dflt)"
| "py_get v k dflt = Inl (no_attribute v ''get'')"

text \<open>\<^verbatim>\<open>v.values()\<close>.\<close>

fun py_values :: "pyval \<Rightarrow> error + pyval list" where
  "py_values (PDict d) = Inr (map snd d)"
| "py_values v = Inl (no_attribute v ''values'')"

text \<open>
  \<^verbatim>\<open>k in v\<close> for a string \<open>k\<close>: key membership in a dictionary, element membership in a
  list, substring of a string; the other values are not containers.
\<close>

fun py_in :: "string \<Rightarrow> pyval \<Rightarrow> error + bool" where
  "py_in k (PDict d) = Inr (k \<in> fst ` set d)"
| "py_in k (PList l) = Inr (PStr k \<in> set l)"
| "py_in k (PStr s) = Inr (sublist k s)"
| "py_in k v = Inl (TypeError (''argument of type '' @ quoted (type_name v) @ '' is not iterable''))"

section \<open>The data model\<close>

text \<open>The dataclass \<^verbatim>\<open>WorkflowStep\<close>; \<open>None\<close> is Python's \<^verbatim>\<open>None\<close> default.\<close>

record step =
  name :: string
  description :: string
  agent_action :: string
  parallel :: bool
  timeout :: int
  condition :: "string option"
  depends_on :: "string list option"
  agent_selector :: "string option"

text \<open>
  An agent is an object of the orchestrator, outside the workflow module. The workflow reads
  two attributes: \<^verbatim>\<open>risk_level\<close>, whose read either gives a value or raises an exception
  deriving from \<^verbatim>\<open>Exception\<close>, and the number \<^verbatim>\<open>outbreak_belief\<close>.
\<close>

record agent =
  risk_level :: "error + pyval"
  outbreak_belief :: real

text \<open>\<^verbatim>\<open>orchestrator.agents\<close>: a dictionary from agent id to agent, in insertion order.\<close>

record orchestrator =
  agents :: "(string \<times> agent) list"

text \<open>
  The instance attributes of \<^verbatim>\<open>OutbreakDetectionWorkflow\<close>; an orchestrator that was not
  configured is \<open>None\<close>.
\<close>

record workflow =
  orchestrator :: "orchestrator option"
  steps :: "step list"

definition workflow_name :: string where
  "workflow_name = ''outbreak_detection''"

definition define_steps :: "step list" where
  "define_steps =
    [ \<lparr>name = ''local_analysis'',
       description = ''Each agent analyzes its local data'',
       agent_action = ''analyze_symptoms'',
       parallel = True, timeout = 30,
       condition = None, depends_on = None, agent_selector = None\<rparr>,
      \<lparr>name = ''neighbor_consultation'',
       description = ''Agents query neighbors if anomaly detected'',
       agent_action = ''query_neighbors'',
       parallel = True, timeout = 60,
       condition = Some ''anomaly_detected == true'', depends_on = None,
       agent_selector = None\<rparr>,
      \<lparr>name = ''collective_reasoning'',
       description = ''Agents synthesize neighbor responses'',
       agent_action = ''reason_about_collective_evidence'',
       parallel = True, timeout = 45,
       condition = None, depends_on = Some [''neighbor_consultation''],
       agent_selector = None\<rparr>,
      \<lparr>name = ''consensus_proposal'',
       description = ''Agent with strongest evidence proposes action'',
       agent_action = ''propose_consensus'',
       parallel = False, timeout = 30,
       condition = None, depends_on = None,
       agent_selector = Some ''max_outbreak_belief''\<rparr>,
      \<lparr>name = ''voting'',
       description = ''All agents vote on proposal'',
       agent_action = ''vote'',
       parallel = True, timeout = 60,
       condition = None, depends_on = Some [''consensus_proposal''],
       agent_selector = None\<rparr>,
      \<lparr>name = ''quantum_escalation'',
       description = ''Escalate to quantum if consensus reached'',
       agent_action = ''escalate_to_quantum'',
       parallel = False, timeout = 120,
       condition = Some ''consensus_reached == true'', depends_on = None,
       agent_selector = Some ''proposer''\<rparr> ]"

text \<open>\<^verbatim>\<open>__init__\<close>: the step list is fixed at construction.\<close>

definition OutbreakDetectionWorkflow :: "orchestrator option \<Rightarrow> workflow" where
  "OutbreakDetectionWorkflow orch = \<lparr>orchestrator = orch, steps = define_steps\<rparr>"

section \<open>Agent selection\<close>

text \<open>
  \<^verbatim>\<open>max(items, key=...)\<close> on a non-empty sequence: the running maximum is replaced only by
  a strictly greater key, so the first of several maximal items wins. On an empty sequence
  \<^verbatim>\<open>max\<close> raises ValueError; the message below is the one of CPython up to 3.11 (later
  versions word it \<^verbatim>\<open>max() iterable argument is empty\<close>).
\<close>

fun py_max_by :: "('a \<Rightarrow> real) \<Rightarrow> 'a \<Rightarrow> 'a list \<Rightarrow> 'a" where
  "py_max_by key m [] = m"
| "py_max_by key m (x # xs) = py_max_by key (if key m < key x then x else m) xs"

definition select_agents :: "workflow \<Rightarrow> step \<Rightarrow> error + (string \<times> agent) list" where
  "select_agents self step =
    (case orchestrator self of
       None \<Rightarrow> Inr []
     | Some orch \<Rightarrow>
        (let all_agents = agents orch in
         if agent_selector step = Some ''max_outbreak_belief'' then
           (case all_agents of
              [] \<Rightarrow> Inl (ValueError ''max() arg is an empty sequence'')
            | x # xs \<Rightarrow> Inr [py_max_by (\<lambda>x. outbreak_belief (snd x)) x xs])
         else if agent_selector step = Some ''proposer'' then
           (case all_agents of
              [] \<Rightarrow> Inl (IndexError ''list index out of range'')
            | x # xs \<Rightarrow> Inr [x])
         else Inr all_agents))"

section \<open>Agent actions\<close>

definition execute_agent_action :: "agent \<Rightarrow> string \<Rightarrow> dict \<Rightarrow> error + dict" where
  "execute_agent_action agent action context =
    (if action = ''analyze_symptoms'' then
       (case risk_level agent of
          Inl e \<Rightarrow> Inl e
        | Inr level \<Rightarrow> Inr [(''action'', PStr action), (''risk_level'', level)])
     else if action = ''query_neighbors'' then
       Inr [(''action'', PStr action), (''neighbors_queried'', PBool True)]
     else if action = ''propose_consensus'' then
       Inr [(''action'', PStr action), (''proposal_made'', PBool True)]
     else if action = ''vote'' then
       Inr [(''action'', PStr action), (''vote'', PStr ''approve'')]
     else if action = ''escalate_to_quantum'' then
       Inr [(''action'', PStr action), (''escalated'', PBool True)]
     else
       Inr [(''action'', PStr action), (''status'', PStr ''completed'')])"

section \<open>Condition evaluation\<close>

text \<open>
  The loop over \<^verbatim>\<open>parallel_results.values()\<close>, returning at the first entry whose
  \<^verbatim>\<open>risk_level\<close> is one of the two strings.
\<close>

fun any_high_risk :: "pyval list \<Rightarrow> error + pyval" where
  "any_high_risk [] = Inr (PBool False)"
| "any_high_risk (result # rest) =
    (case py_get result ''risk_level'' PNone of
       Inl e \<Rightarrow> Inl e
     | Inr level \<Rightarrow>
         if level = PStr ''high'' \<or> level = PStr ''critical'' then Inr (PBool True)
         else any_high_risk rest)"

definition evaluate_condition :: "string \<Rightarrow> dict \<Rightarrow> error + pyval" where
  "evaluate_condition cond context =
    (if sublist ''anomaly_detected == true'' cond then
       (case py_get (dict_get context ''step_results'' (PDict [])) ''local_analysis'' (PDict []) of
          Inl e \<Rightarrow> Inl e
        | Inr local_analysis \<Rightarrow>
           (case py_get local_analysis ''parallel_results'' (PDict []) of
              Inl e \<Rightarrow> Inl e
            | Inr parallel_results \<Rightarrow>
               (case py_values parallel_results of
                  Inl e \<Rightarrow> Inl e
                | Inr results \<Rightarrow> any_high_risk results)))
     else if sublist ''consensus_reached == true'' cond then
       (case py_get (dict_get context ''step_results'' (PDict [])) ''voting'' (PDict []) of
          Inl e \<Rightarrow> Inl e
        | Inr voting \<Rightarrow> py_get voting ''consensus_reached'' (PBool False))
     else Inr (PBool True))"

section \<open>Executing one step\<close>

text \<open>
  \<^verbatim>\<open>step.condition and not self._evaluate_condition(step.condition, context)\<close>: a missing or
  empty condition is falsy and the evaluator is not called. The result is the condition
  that was evaluated and found false, if any.
\<close>

definition unmet_condition :: "step \<Rightarrow> dict \<Rightarrow> error + string option" where
  "unmet_condition step context =
    (case condition step of
       None \<Rightarrow> Inr None
     | Some c \<Rightarrow>
        if c = [] then Inr None
        else (case evaluate_condition c context of
                Inl e \<Rightarrow> Inl e
              | Inr v \<Rightarrow> if \<not> truthy v then Inr (Some c) else Inr None))"

text \<open>The loop over \<^verbatim>\<open>step.depends_on\<close>: the first dependency that is not recorded.\<close>

fun missing_dependency :: "string list \<Rightarrow> dict \<Rightarrow> error + string option" where
  "missing_dependency [] context = Inr None"
| "missing_dependency (dep # deps) context =
    (case py_in dep (dict_get context ''step_results'' (PDict [])) of
       Inl e \<Rightarrow> Inl e
     | Inr present \<Rightarrow> if \<not> present then Inr (Some dep) else missing_dependency deps context)"

text \<open>
  The loop of a parallel step: every selected agent is invoked in turn, and an invocation
  that raises leaves an error entry under that agent's id. The handler is
  \<^verbatim>\<open>except Exception\<close>, the class of every value of \<open>error\<close>.
\<close>

definition agent_entry :: "agent \<Rightarrow> string \<Rightarrow> dict \<Rightarrow> pyval" where
  "agent_entry agent action context =
    (case execute_agent_action agent action context of
       Inr result \<Rightarrow> PDict result
     | Inl e \<Rightarrow> PDict [(''error'', PStr (str_of e))])"

fun run_parallel :: "(string \<times> agent) list \<Rightarrow> string \<Rightarrow> dict \<Rightarrow> dict \<Rightarrow> dict" where
  "run_parallel [] action context results = results"
| "run_parallel ((agent_id, agent) # rest) action context results =
     run_parallel rest action context
       (AList.update agent_id (agent_entry agent action context) results)"

definition execute_step :: "workflow \<Rightarrow> step \<Rightarrow> dict \<Rightarrow> error + dict" where
  "execute_step self step context =
    (case unmet_condition step context of
       Inl e \<Rightarrow> Inl e
     | Inr (Some c) \<Rightarrow>
         Inr [(''skipped'', PBool True), (''reason'', PStr (''Condition not met: '' @ c))]
     | Inr None \<Rightarrow>
        (case missing_dependency (case depends_on step of None \<Rightarrow> [] | Some deps \<Rightarrow> deps) context of
           Inl e \<Rightarrow> Inl e
         | Inr (Some dep) \<Rightarrow>
             Inr [(''skipped'', PBool True), (''reason'', PStr (''Dependency not met: '' @ dep))]
         | Inr None \<Rightarrow>
            (case select_agents self step of
               Inl e \<Rightarrow> Inl e
             | Inr selected \<Rightarrow>
                if parallel step then
                  Inr [(''parallel_results'', PDict (run_parallel selected (agent_action step) context []))]
                else
                  (case selected of
                     [] \<Rightarrow> Inr [(''error'', PStr ''No agent selected'')]
                   | (agent_id, agent) # rest \<Rightarrow>
                       execute_agent_action agent (agent_action step) context))))"

section \<open>Running the workflow\<close>

definition should_continue :: "step \<Rightarrow> dict \<Rightarrow> bool" where
  "should_continue step result =
    (if truthy (dict_get result ''error'' PNone) then False
     else if truthy (dict_get result ''skipped'' PNone) then True
     else True)"

text \<open>
  \<^verbatim>\<open>results["step_results"][step.name] = value\<close>: the subscript raises when the key is
  missing, and the item assignment when the value under it is not a dictionary.
\<close>

definition set_step_result :: "dict \<Rightarrow> string \<Rightarrow> pyval \<Rightarrow> error + dict" where
  "set_step_result results step_name v =
    (case map_of results ''step_results'' of
       None \<Rightarrow> Inl (KeyError (quoted ''step_results''))
     | Some (PDict step_results) \<Rightarrow>
         Inr (AList.update ''step_results'' (PDict (AList.update step_name v step_results)) results)
     | Some other \<Rightarrow>
         Inl (TypeError (quoted (type_name other) @ '' object does not support item assignment'')))"

text \<open>
  The loop of \<^verbatim>\<open>execute\<close>. The body of the \<^verbatim>\<open>try\<close> is the step, the recording of its
  result and the continuation test; the handler, \<^verbatim>\<open>except Exception\<close>, records the message
  of what was raised and leaves the loop. Nothing guards the handler itself.
\<close>

fun run_steps :: "workflow \<Rightarrow> step list \<Rightarrow> dict \<Rightarrow> error + dict" where
  "run_steps self [] results = Inr results"
| "run_steps self (step # rest) results =
    (case (case execute_step self step results of
             Inl e \<Rightarrow> Inl e
           | Inr step_result \<Rightarrow>
              (case set_step_result results (name step) (PDict step_result) of
                 Inl e \<Rightarrow> Inl e
               | Inr results' \<Rightarrow> Inr (results', should_continue step step_result))) of
       Inr (results', continue) \<Rightarrow>
         if continue then run_steps self rest results' else Inr results'
     | Inl e \<Rightarrow> set_step_result results (name step) (PDict [(''error'', PStr (str_of e))]))"

definition execute :: "workflow \<Rightarrow> pyval \<Rightarrow> error + dict" where
  "execute self trigger_data =
    (case orchestrator self of
       None \<Rightarrow> Inr [(''error'', PStr ''Orchestrator not configured'')]
     | Some orch \<Rightarrow>
         run_steps self (steps self)
           [(''workflow'', PStr workflow_name),
            (''trigger_data'', trigger_data),
            (''step_results'', PDict [])])"

text \<open>The step results of a report, read as the caller does.\<close>

definition step_results_of :: "dict \<Rightarrow> dict" where
  "step_results_of report =
    (case map_of report ''step_results'' of Some (PDict sr) \<Rightarrow> sr | _ \<Rightarrow> [])"


text \<open>The dictionary \<^verbatim>\<open>results\<close> of \<^verbatim>\<open>execute\<close>, with the step results recorded so far.\<close>

definition initial_results :: "pyval \<Rightarrow> dict \<Rightarrow> dict" where
  "initial_results trigger_data sr =
     [(''workflow'', PStr workflow_name), (''trigger_data'', trigger_data),
      (''step_results'', PDict sr)]"

section \<open>Outcome predicates and example inputs\<close>

text \<open>
  What the loop of \<^verbatim>\<open>execute\<close> records for a step: the outcome the step returned, or the
  message of what it raised.
\<close>

definition recorded :: "error + dict \<Rightarrow> dict" where
  "recorded r = (case r of Inl e \<Rightarrow> [(''error'', PStr (str_of e))] | Inr d \<Rightarrow> d)"

text \<open>The loop leaves after a step that raised or whose outcome fails the continuation test.\<close>

definition halts_run :: "step \<Rightarrow> error + dict \<Rightarrow> bool" where
  "halts_run step r = (case r of Inl e \<Rightarrow> True | Inr d \<Rightarrow> \<not> should_continue step d)"


text \<open>A workflow whose orchestrator has an empty agent registry.\<close>

definition no_agents :: workflow where
  "no_agents = OutbreakDetectionWorkflow (Some \<lparr>agents = []\<rparr>)"

text \<open>An entry of a parallel result, or a step outcome, that carries an \<^verbatim>\<open>error\<close> key.\<close>

definition is_error_entry :: "pyval \<Rightarrow> bool" where
  "is_error_entry v = (case v of PDict d \<Rightarrow> ''error'' \<in> fst ` set d | _ \<Rightarrow> False)"

text \<open>
  A registry of three agents: one reports a low risk level, one a critical risk level, and
  reading the risk level of the third raises. The last two tie on the outbreak belief.
\<close>

definition example_agents :: "(string \<times> agent) list" where
  "example_agents =
    [(''pune'', \<lparr>risk_level = Inr (PStr ''low''), outbreak_belief = 1/5\<rparr>),
     (''nashik'', \<lparr>risk_level = Inr (PStr ''critical''), outbreak_belief = 9/10\<rparr>),
     (''satara'', \<lparr>risk_level = Inl (AgentError ''sensor offline''), outbreak_belief = 9/10\<rparr>)]"

definition three_agents :: workflow where
  "three_agents = OutbreakDetectionWorkflow (Some \<lparr>agents = example_agents\<rparr>)"

text \<open>
  A step with both a precondition and a dependency: the condition of the built-in
  \<^verbatim>\<open>quantum_escalation\<close> step and a dependency on \<^verbatim>\<open>voting\<close>.
\<close>

definition gated_step :: step where
  "gated_step =
    \<lparr>name = ''escalation_review'',
     description = ''Review the escalation after the vote'',
     agent_action = ''escalate_to_quantum'',
     parallel = False, timeout = 30,
     condition = Some ''consensus_reached == true'', depends_on = Some [''voting''],
     agent_selector = None\<rparr>"

text \<open>An entry of a parallel result that reports a risk level of high or critical.\<close>

definition reports_high_risk :: "pyval \<Rightarrow> bool" where
  "reports_high_risk entry =
    (case entry of
       PDict d \<Rightarrow> map_of d ''risk_level'' = Some (PStr ''high'') \<or>
                  map_of d ''risk_level'' = Some (PStr ''critical'')
     | _ \<Rightarrow> False)"

text \<open>A registry of two agents, neither of which reports a high or critical risk level.\<close>

definition calm_agents :: "(string \<times> agent) list" where
  "calm_agents =
    [(''pune'', \<lparr>risk_level = Inr (PStr ''low''), outbreak_belief = 1/5\<rparr>),
     (''wardha'', \<lparr>risk_level = Inr (PStr ''medium''), outbreak_belief = 2/5\<rparr>)]"

text \<open>The context after \<^verbatim>\<open>local_analysis\<close> over the three example agents.\<close>

definition analysed_context :: dict where
  "analysed_context =
    initial_results PNone
      [(''local_analysis'', PDict [(''parallel_results'', PDict
         [(''pune'', PDict [(''action'', PStr ''analyze_symptoms''), (''risk_level'', PStr ''low'')]),
          (''nashik'', PDict [(''action'', PStr ''analyze_symptoms''),
                              (''risk_level'', PStr ''critical'')]),
          (''satara'', PDict [(''error'', PStr ''sensor offline'')])])])]"

section \<open>Basic facts about the run\<close>

lemma set_step_result_initial:
  "set_step_result (initial_results t sr) n v = Inr (initial_results t (AList.update n v sr))"
  by (simp add: set_step_result_def initial_results_def)

lemma step_results_of_initial [simp]: "step_results_of (initial_results t sr) = sr"
  by (simp add: step_results_of_def initial_results_def)

lemma context_step_results [simp]:
  "dict_get (initial_results t sr) ''step_results'' d = PDict sr"
  by (simp add: dict_get_def initial_results_def)

lemma initial_results_inject [simp]:
  "initial_results t sr = initial_results t' sr' \<longleftrightarrow> t = t' \<and> sr = sr'"
  by (simp add: initial_results_def)

lemma run_steps_Cons:
  "run_steps self (s # rest) (initial_results t sr) =
    (case execute_step self s (initial_results t sr) of
       Inl e \<Rightarrow> Inr (initial_results t (AList.update (name s) (PDict [(''error'', PStr (str_of e))]) sr))
     | Inr d \<Rightarrow>
         if should_continue s d
         then run_steps self rest (initial_results t (AList.update (name s) (PDict d) sr))
         else Inr (initial_results t (AList.update (name s) (PDict d) sr)))"
  by (simp add: set_step_result_initial split: sum.splits)

lemmas run_simps = execute_def OutbreakDetectionWorkflow_def define_steps_def run_steps.simps
  execute_step_def unmet_condition_def evaluate_condition_def select_agents_def
  set_step_result_def should_continue_def dict_get_def workflow_name_def sublist_Cons_right
  execute_agent_action_def agent_entry_def

lemma no_agents_run:
  "execute no_agents PNone =
     Inr [(''workflow'', PStr ''outbreak_detection''),
      (''trigger_data'', PNone),
      (''step_results'',
       PDict
        [(''local_analysis'', PDict [(''parallel_results'', PDict [])]),
         (''neighbor_consultation'',
          PDict
           [(''skipped'', PBool True),
            (''reason'', PStr ''Condition not met: anomaly_detected == true'')]),
         (''collective_reasoning'', PDict [(''parallel_results'', PDict [])]),
         (''consensus_proposal'',
          PDict [(''error'', PStr ''max() arg is an empty sequence'')])])]"
  by (simp add: no_agents_def run_simps)

declare run_steps.simps(2) [simp del]

text \<open>
  Started on a dictionary of the shape \<^verbatim>\<open>execute\<close> builds, the loop never raises and
  returns a dictionary of the same shape.
\<close>

lemma run_steps_shape:
  "\<exists>sr'. run_steps self ss (initial_results t sr) = Inr (initial_results t sr')"
proof (induction ss arbitrary: sr)
  case Nil
  show ?case by auto
next
  case (Cons s ss)
  show ?case using Cons.IH
    by (auto simp add: run_steps_Cons split: sum.splits)
qed

lemma run_steps_ConsE:
  assumes "run_steps self (s # rest) (initial_results t sr) = Inr (initial_results t sr')"
  obtains
    (raised) e where "execute_step self s (initial_results t sr) = Inl e"
      and "sr' = AList.update (name s) (PDict [(''error'', PStr (str_of e))]) sr"
  | (halted) d where "execute_step self s (initial_results t sr) = Inr d"
      and "\<not> should_continue s d"
      and "sr' = AList.update (name s) (PDict d) sr"
  | (continued) d where "execute_step self s (initial_results t sr) = Inr d"
      and "should_continue s d"
      and "run_steps self rest (initial_results t (AList.update (name s) (PDict d) sr)) =
             Inr (initial_results t sr')"
  using assms by (auto simp add: run_steps_Cons split: sum.splits if_splits)

lemma run_steps_keys_mono:
  "run_steps self ss (initial_results t sr) = Inr (initial_results t sr') \<Longrightarrow>
   fst ` set sr \<subseteq> fst ` set sr'"
proof (induction ss arbitrary: sr)
  case Nil
  then show ?case by simp
next
  case (Cons s ss)
  from Cons.prems show ?case
  proof (cases rule: run_steps_ConsE)
    case (raised e)
    then show ?thesis by (auto simp add: dom_update)
  next
    case (halted d)
    then show ?thesis by (auto simp add: dom_update)
  next
    case (continued d)
    from Cons.IH [OF continued(3)] show ?thesis by (auto simp add: dom_update)
  qed
qed

lemma run_steps_first_recorded:
  assumes "run_steps self (s # ss) (initial_results t sr) = Inr (initial_results t sr')"
  shows "name s \<in> fst ` set sr'"
  using assms
proof (cases rule: run_steps_ConsE)
  case (raised e)
  then show ?thesis by (simp add: dom_update)
next
  case (halted d)
  then show ?thesis by (simp add: dom_update)
next
  case (continued d)
  from run_steps_keys_mono [OF continued(3)] show ?thesis by (simp add: dom_update)
qed

lemma run_steps_keys_bound:
  "run_steps self ss (initial_results t sr) = Inr (initial_results t sr') \<Longrightarrow>
   fst ` set sr' \<subseteq> fst ` set sr \<union> name ` set ss"
proof (induction ss arbitrary: sr)
  case Nil
  then show ?case by simp
next
  case (Cons s ss)
  from Cons.prems show ?case
  proof (cases rule: run_steps_ConsE)
    case (raised e)
    then show ?thesis by (auto simp add: dom_update)
  next
    case (halted d)
    then show ?thesis by (auto simp add: dom_update)
  next
    case (continued d)
    from Cons.IH [OF continued(3)] show ?thesis by (auto simp add: dom_update)
  qed
qed

lemma run_steps_other_unchanged:
  "run_steps self ss (initial_results t sr) = Inr (initial_results t sr') \<Longrightarrow>
   n \<notin> name ` set ss \<Longrightarrow> map_of sr' n = map_of sr n"
proof (induction ss arbitrary: sr)
  case Nil
  then show ?case by simp
next
  case (Cons s ss)
  from Cons.prems(1) show ?case
  proof (cases rule: run_steps_ConsE)
    case (raised e)
    then show ?thesis using Cons.prems(2) by (simp add: update_conv')
  next
    case (halted d)
    then show ?thesis using Cons.prems(2) by (simp add: update_conv')
  next
    case (continued d)
    from Cons.IH [OF continued(3)] Cons.prems(2) show ?thesis by (simp add: update_conv')
  qed
qed

lemma execute_agent_action_keys:
  "execute_agent_action a act ctx = Inr d \<Longrightarrow> ''error'' \<notin> fst ` set d"
  by (auto simp add: execute_agent_action_def split: if_splits sum.splits)

lemma execute_step_error_halts:
  "execute_step self s ctx = Inr d \<Longrightarrow> ''error'' \<in> fst ` set d \<Longrightarrow> \<not> should_continue s d"
  by (auto simp add: execute_step_def should_continue_def dict_get_def
      split: sum.splits option.splits if_splits list.splits dest: execute_agent_action_keys)



lemma map_of_None_keys: "k \<notin> fst ` set al \<Longrightarrow> map_of al k = None"
  by (simp add: map_of_eq_None_iff)

lemma run_steps_failed_halts:
  assumes "run_steps self (before @ s # after) (initial_results t sr) = Inr (initial_results t sr')"
    and "distinct (map name (before @ s # after))"
    and "\<forall>x\<in>set (before @ s # after). name x \<notin> fst ` set sr"
    and "map_of sr' (name s) = Some (PDict outcome)"
    and "''error'' \<in> fst ` set outcome"
  shows "\<forall>s'\<in>set after. name s' \<notin> fst ` set sr'"
  using assms(1,2,3)
proof (induction before arbitrary: sr)
  case Nil
  have run: "run_steps self (s # after) (initial_results t sr) = Inr (initial_results t sr')"
    using Nil.prems(1) by simp
  have later: "\<forall>s'\<in>set after. name s' \<noteq> name s \<and> name s' \<notin> fst ` set sr"
    using Nil.prems(2,3) by (auto simp add: image_iff)
  from run show ?case
  proof (cases rule: run_steps_ConsE)
    case (raised e)
    then show ?thesis using later by (simp add: dom_update)
  next
    case (halted d)
    then show ?thesis using later by (simp add: dom_update)
  next
    case (continued d)
    have "name s \<notin> name ` set after" using Nil.prems(2) by simp
    from run_steps_other_unchanged [OF continued(3) this]
    have "outcome = d" using assms(4) by (simp add: update_conv')
    with execute_step_error_halts [OF continued(1)] assms(5) continued(2)
    show ?thesis by simp
  qed
next
  case (Cons b bs)
  have run: "run_steps self (b # (bs @ s # after)) (initial_results t sr) = Inr (initial_results t sr')"
    using Cons.prems(1) by simp
  have neq: "name s \<noteq> name b" using Cons.prems(2) by (auto simp add: image_iff)
  have fresh: "name s \<notin> fst ` set sr" using Cons.prems(3) by simp
  from run show ?case
  proof (cases rule: run_steps_ConsE)
    case (raised e)
    then have "map_of sr' (name s) = None"
      using neq fresh by (simp add: update_conv' map_of_None_keys)
    then show ?thesis using assms(4) by simp
  next
    case (halted d)
    then have "map_of sr' (name s) = None"
      using neq fresh by (simp add: update_conv' map_of_None_keys)
    then show ?thesis using assms(4) by simp
  next
    case (continued d)
    have d1: "distinct (map name (bs @ s # after))" using Cons.prems(2) by simp
    have d2: "\<forall>x\<in>set (bs @ s # after). name x \<notin> fst ` set (AList.update (name b) (PDict d) sr)"
      using Cons.prems(2,3) by (auto simp add: dom_update image_iff)
    from Cons.IH [OF continued(3) d1 d2]
    show ?thesis .
  qed
qed

lemma should_continue_skipped:
  "should_continue s [(''skipped'', PBool True), (''reason'', PStr r)]"
  by (simp add: should_continue_def dict_get_def)

lemma run_steps_skipped_continues:
  assumes "run_steps self (before @ s # s' # after) (initial_results t sr) = Inr (initial_results t sr')"
    and "distinct (map name (before @ s # s' # after))"
    and "\<forall>x\<in>set (before @ s # s' # after). name x \<notin> fst ` set sr"
    and "map_of sr' (name s) = Some (PDict [(''skipped'', PBool True), (''reason'', PStr r)])"
  shows "name s' \<in> fst ` set sr'"
  using assms(1,2,3)
proof (induction before arbitrary: sr)
  case Nil
  have run: "run_steps self (s # s' # after) (initial_results t sr) = Inr (initial_results t sr')"
    using Nil.prems(1) by simp
  have other: "name s \<notin> name ` set (s' # after)" using Nil.prems(2) by simp
  from run show ?case
  proof (cases rule: run_steps_ConsE)
    case (raised e)
    then show ?thesis using assms(4) by (simp add: update_conv')
  next
    case (halted d)
    then have "d = [(''skipped'', PBool True), (''reason'', PStr r)]"
      using assms(4) by (simp add: update_conv')
    then show ?thesis using halted(2) should_continue_skipped [of s r] by simp
  next
    case (continued d)
    from run_steps_first_recorded [OF continued(3)] show ?thesis .
  qed
next
  case (Cons b bs)
  have run: "run_steps self (b # (bs @ s # s' # after)) (initial_results t sr) = Inr (initial_results t sr')"
    using Cons.prems(1) by simp
  have neq: "name s \<noteq> name b" using Cons.prems(2) by (auto simp add: image_iff)
  have fresh: "name s \<notin> fst ` set sr" using Cons.prems(3) by simp
  from run show ?case
  proof (cases rule: run_steps_ConsE)
    case (raised e)
    then have "map_of sr' (name s) = None"
      using neq fresh by (simp add: update_conv' map_of_None_keys)
    then show ?thesis using assms(4) by simp
  next
    case (halted d)
    then have "map_of sr' (name s) = None"
      using neq fresh by (simp add: update_conv' map_of_None_keys)
    then show ?thesis using assms(4) by simp
  next
    case (continued d)
    have d1: "distinct (map name (bs @ s # s' # after))" using Cons.prems(2) by simp
    have d2: "\<forall>x\<in>set (bs @ s # s' # after). name x \<notin> fst ` set (AList.update (name b) (PDict d) sr)"
      using Cons.prems(2,3) by (auto simp add: dom_update image_iff)
    from Cons.IH [OF continued(3) d1 d2]
    show ?thesis .
  qed
qed

lemma update_fresh: "k \<notin> fst ` set al \<Longrightarrow> AList.update k v al = al @ [(k, v)]"
  by (induction al) auto

lemma run_steps_trace:
  assumes "distinct (map name ss)"
    and "\<forall>s\<in>set ss. name s \<notin> fst ` set sr0"
  shows "\<exists>rec.
     run_steps self ss (initial_results t sr0) = Inr (initial_results t (sr0 @ rec)) \<and>
     map fst rec = map name (take (length rec) ss) \<and>
     (\<forall>k<length rec. snd (rec ! k) =
        PDict (recorded (execute_step self (ss ! k) (initial_results t (sr0 @ take k rec))))) \<and>
     (\<forall>k. Suc k < length rec \<longrightarrow>
        \<not> halts_run (ss ! k) (execute_step self (ss ! k) (initial_results t (sr0 @ take k rec)))) \<and>
     (length rec < length ss \<longrightarrow> rec \<noteq> [] \<and>
        halts_run (ss ! (length rec - 1))
          (execute_step self (ss ! (length rec - 1))
             (initial_results t (sr0 @ take (length rec - 1) rec))))"
  using assms
proof (induction ss arbitrary: sr0)
  case Nil
  show ?case by (rule exI [of _ "[]"]) simp
next
  case (Cons s ss)
  have fresh: "name s \<notin> fst ` set sr0" using Cons.prems(2) by simp
  let ?r = "execute_step self s (initial_results t sr0)"
  show ?case
  proof (cases "halts_run s ?r")
    case True
    let ?rec = "[(name s, PDict (recorded ?r))]"
    have run: "run_steps self (s # ss) (initial_results t sr0) =
        Inr (initial_results t (sr0 @ ?rec))"
      using True fresh
      by (simp add: run_steps_Cons halts_run_def recorded_def update_fresh split: sum.splits)
    show ?thesis
      by (rule exI [of _ ?rec]) (simp add: run True)
  next
    case False
    then obtain d where d: "?r = Inr d" and cont: "should_continue s d"
      by (auto simp add: halts_run_def split: sum.splits)
    let ?sr1 = "sr0 @ [(name s, PDict d)]"
    have d1: "distinct (map name ss)" using Cons.prems(1) by simp
    have d2: "\<forall>x\<in>set ss. name x \<notin> fst ` set ?sr1"
      using Cons.prems by (auto simp add: image_iff)
    from Cons.IH [OF d1 d2] obtain rec' where
      r: "run_steps self ss (initial_results t ?sr1) = Inr (initial_results t (?sr1 @ rec'))"
      and a: "map fst rec' = map name (take (length rec') ss)"
      and b: "\<forall>k<length rec'. snd (rec' ! k) =
        PDict (recorded (execute_step self (ss ! k) (initial_results t (?sr1 @ take k rec'))))"
      and c: "\<forall>k. Suc k < length rec' \<longrightarrow>
        \<not> halts_run (ss ! k) (execute_step self (ss ! k) (initial_results t (?sr1 @ take k rec')))"
      and e: "length rec' < length ss \<longrightarrow> rec' \<noteq> [] \<and>
        halts_run (ss ! (length rec' - 1))
          (execute_step self (ss ! (length rec' - 1))
             (initial_results t (?sr1 @ take (length rec' - 1) rec')))"
      by blast
    let ?rec = "(name s, PDict d) # rec'"
    have run: "run_steps self (s # ss) (initial_results t sr0) =
        Inr (initial_results t (sr0 @ ?rec))"
      using d cont fresh r by (simp add: run_steps_Cons update_fresh)
    have A: "map fst ?rec = map name (take (length ?rec) (s # ss))"
      using a by simp
    have B: "\<forall>k<length ?rec. snd (?rec ! k) =
        PDict (recorded (execute_step self ((s # ss) ! k)
          (initial_results t (sr0 @ take k ?rec))))"
    proof (intro allI impI)
      fix k assume k: "k < length ?rec"
      show "snd (?rec ! k) =
        PDict (recorded (execute_step self ((s # ss) ! k)
          (initial_results t (sr0 @ take k ?rec))))"
      proof (cases k)
        case 0
        then show ?thesis using d by (simp add: recorded_def)
      next
        case (Suc j)
        then have "j < length rec'" using k by simp
        with b Suc show ?thesis by simp
      qed
    qed
    have C: "\<forall>k. Suc k < length ?rec \<longrightarrow>
        \<not> halts_run ((s # ss) ! k) (execute_step self ((s # ss) ! k)
          (initial_results t (sr0 @ take k ?rec)))"
    proof (intro allI impI)
      fix k assume k: "Suc k < length ?rec"
      show "\<not> halts_run ((s # ss) ! k) (execute_step self ((s # ss) ! k)
          (initial_results t (sr0 @ take k ?rec)))"
      proof (cases k)
        case 0
        then show ?thesis using False by simp
      next
        case (Suc j)
        then have "Suc j < length rec'" using k by simp
        with c Suc show ?thesis by simp
      qed
    qed
    have E: "length ?rec < length (s # ss) \<longrightarrow> ?rec \<noteq> [] \<and>
        halts_run ((s # ss) ! (length ?rec - 1))
          (execute_step self ((s # ss) ! (length ?rec - 1))
             (initial_results t (sr0 @ take (length ?rec - 1) ?rec)))"
    proof
      assume "length ?rec < length (s # ss)"
      then have "length rec' < length ss" by simp
      with e have ne: "rec' \<noteq> []" and h: "halts_run (ss ! (length rec' - 1))
          (execute_step self (ss ! (length rec' - 1))
             (initial_results t (?sr1 @ take (length rec' - 1) rec')))" by simp_all
      from ne obtain j where j: "length rec' = Suc j" by (cases rec') auto
      show "?rec \<noteq> [] \<and>
        halts_run ((s # ss) ! (length ?rec - 1))
          (execute_step self ((s # ss) ! (length ?rec - 1))
             (initial_results t (sr0 @ take (length ?rec - 1) ?rec)))"
        using h j by simp
    qed
    show ?thesis
      by (rule exI [of _ ?rec]) (use run A B C E in blast)
  qed
qed


lemma execute_trace:
  assumes "orchestrator self \<noteq> None"
    and "distinct (map name (steps self))"
  shows "\<exists>sr.
     execute self t = Inr (initial_results t sr) \<and>
     map fst sr = map name (take (length sr) (steps self)) \<and>
     (\<forall>k<length sr. snd (sr ! k) =
        PDict (recorded (execute_step self (steps self ! k) (initial_results t (take k sr))))) \<and>
     (\<forall>k. Suc k < length sr \<longrightarrow>
        \<not> halts_run (steps self ! k)
            (execute_step self (steps self ! k) (initial_results t (take k sr)))) \<and>
     (length sr < length (steps self) \<longrightarrow> sr \<noteq> [] \<and>
        halts_run (steps self ! (length sr - 1))
          (execute_step self (steps self ! (length sr - 1))
             (initial_results t (take (length sr - 1) sr))))"
proof -
  have ex: "execute self t = run_steps self (steps self) (initial_results t [])"
    using assms(1) by (auto simp add: execute_def initial_results_def)
  from run_steps_trace [OF assms(2), of "[]" self t]
  show ?thesis unfolding ex by simp
qed

section \<open>The report of a run\<close>

text \<open>
  C1 (as amended). No exception deriving from \<^verbatim>\<open>Exception\<close> leaves \<^verbatim>\<open>execute\<close>: it returns
  a report for every workflow and every trigger payload. When no orchestrator is configured
  the report is only \<^verbatim>\<open>{"error": "Orchestrator not configured"}\<close>. When one is configured
  the report has exactly the keys \<^verbatim>\<open>workflow\<close>, \<^verbatim>\<open>trigger_data\<close> and \<^verbatim>\<open>step_results\<close>: the
  workflow name, the trigger payload unchanged and a dictionary of step results. When the
  step names are unique, that dictionary holds every failure of the run: its keys are the
  names of the steps that were executed, in order; under each name is the outcome the step
  returned in the context of the results before it, or \<^verbatim>\<open>{"error": <message>}\<close> with the
  message of what the step raised; every step but the last recorded one neither raised nor
  failed; and when steps are left out, the last recorded step raised or failed.
\<close>

theorem execute_report_shape:
  "(orchestrator self = None \<longrightarrow>
      execute self trigger_data = Inr [(''error'', PStr ''Orchestrator not configured'')]) \<and>
   (orchestrator self \<noteq> None \<longrightarrow>
      (\<exists>sr. execute self trigger_data =
          Inr [(''workflow'', PStr ''outbreak_detection''), (''trigger_data'', trigger_data),
               (''step_results'', PDict sr)] \<and>
        (distinct (map name (steps self)) \<longrightarrow>
           map fst sr = map name (take (length sr) (steps self)) \<and>
           (\<forall>k<length sr. snd (sr ! k) =
              PDict (recorded (execute_step self (steps self ! k)
                       (initial_results trigger_data (take k sr))))) \<and>
           (\<forall>k. Suc k < length sr \<longrightarrow>
              \<not> halts_run (steps self ! k)
                  (execute_step self (steps self ! k)
                     (initial_results trigger_data (take k sr)))) \<and>
           (length sr < length (steps self) \<longrightarrow> sr \<noteq> [] \<and>
              halts_run (steps self ! (length sr - 1))
                (execute_step self (steps self ! (length sr - 1))
                   (initial_results trigger_data (take (length sr - 1) sr)))))))"
proof (cases "orchestrator self")
  case None
  then show ?thesis by (simp add: execute_def)
next
  case (Some orch)
  then have configured: "orchestrator self \<noteq> None" by simp
  show ?thesis
  proof (cases "distinct (map name (steps self))")
    case True
    from execute_trace [OF configured True, of trigger_data]
    show ?thesis using configured True
      by (auto simp add: initial_results_def workflow_name_def)
  next
    case False
    obtain sr' where "run_steps self (steps self) (initial_results trigger_data []) =
        Inr (initial_results trigger_data sr')"
      using run_steps_shape by blast
    then show ?thesis using Some False
      by (auto simp add: execute_def initial_results_def workflow_name_def)
  qed
qed


theorem execute_report_shape_witness:
  "execute (OutbreakDetectionWorkflow None) (PStr ''fever'') =
      Inr [(''error'', PStr ''Orchestrator not configured'')] \<and>
   map fst (step_results_of (projr (execute no_agents PNone))) =
      [''local_analysis'', ''neighbor_consultation'', ''collective_reasoning'',
       ''consensus_proposal''] \<and>
   snd (step_results_of (projr (execute no_agents PNone)) ! 3) =
      PDict (recorded (execute_step no_agents (define_steps ! 3)
        (initial_results PNone (take 3 (step_results_of (projr (execute no_agents PNone))))))) \<and>
   snd (step_results_of (projr (execute no_agents PNone)) ! 3) =
      PDict [(''error'', PStr ''max() arg is an empty sequence'')] \<and>
   halts_run (define_steps ! 3) (execute_step no_agents (define_steps ! 3)
        (initial_results PNone (take 3 (step_results_of (projr (execute no_agents PNone))))))"
proof -
  let ?sr = "step_results_of (projr (execute no_agents PNone))"
  have none: "orchestrator (OutbreakDetectionWorkflow None) = None"
    by (simp add: OutbreakDetectionWorkflow_def)
  have some: "orchestrator no_agents \<noteq> None"
    by (simp add: no_agents_def OutbreakDetectionWorkflow_def)
  have st: "steps no_agents = define_steps"
    by (simp add: no_agents_def OutbreakDetectionWorkflow_def)
  have dist: "distinct (map name (steps no_agents))"
    unfolding st by (simp add: define_steps_def)
  have len: "length ?sr = 4" "length define_steps = 6"
    by (simp_all add: no_agents_run step_results_of_def define_steps_def)
  from execute_report_shape [of "OutbreakDetectionWorkflow None" "PStr ''fever''"] none
  have a: "execute (OutbreakDetectionWorkflow None) (PStr ''fever'') =
      Inr [(''error'', PStr ''Orchestrator not configured'')]" by blast
  from execute_report_shape [of no_agents PNone] some dist
  obtain sr where r: "execute no_agents PNone =
          Inr [(''workflow'', PStr ''outbreak_detection''), (''trigger_data'', PNone),
               (''step_results'', PDict sr)]"
    and names: "map fst sr = map name (take (length sr) (steps no_agents))"
    and entries: "\<forall>k<length sr. snd (sr ! k) =
              PDict (recorded (execute_step no_agents (steps no_agents ! k)
                       (initial_results PNone (take k sr))))"
    and stop: "length sr < length (steps no_agents) \<longrightarrow> sr \<noteq> [] \<and>
              halts_run (steps no_agents ! (length sr - 1))
                (execute_step no_agents (steps no_agents ! (length sr - 1))
                   (initial_results PNone (take (length sr - 1) sr)))"
    by blast
  have sr: "?sr = sr" using r by (simp add: step_results_of_def)
  have b: "map fst ?sr = [''local_analysis'', ''neighbor_consultation'', ''collective_reasoning'',
       ''consensus_proposal'']"
    using names len st sr by (simp add: define_steps_def)
  have c: "snd (?sr ! 3) = PDict (recorded (execute_step no_agents (define_steps ! 3)
        (initial_results PNone (take 3 ?sr))))"
    using entries len st sr by simp
  have d: "halts_run (define_steps ! 3) (execute_step no_agents (define_steps ! 3)
        (initial_results PNone (take 3 ?sr)))"
    using stop len st sr by simp
  have e: "snd (?sr ! 3) = PDict [(''error'', PStr ''max() arg is an empty sequence'')]"
    by (simp add: no_agents_run step_results_of_def)
  from a b c d e show ?thesis by simp
qed

text \<open>
  C1 as stated fails: without an orchestrator the report has none of the three fields.
\<close>

theorem execute_unconfigured_counterexample:
  "execute (OutbreakDetectionWorkflow None) (PStr ''fever'') =
      Inr [(''error'', PStr ''Orchestrator not configured'')] \<and>
   map_of [(''error'', PStr ''Orchestrator not configured'')] ''workflow'' = None \<and>
   map_of [(''error'', PStr ''Orchestrator not configured'')] ''trigger_data'' = None \<and>
   map_of [(''error'', PStr ''Orchestrator not configured'')] ''step_results'' = None"
  by (simp add: execute_def OutbreakDetectionWorkflow_def)

section \<open>Halting on failure\<close>

text \<open>
  C2. In a workflow whose step names are unique, if the outcome recorded for a step has an
  \<^verbatim>\<open>error\<close> key (a Failed outcome), no step declared after it appears in the step results;
  if the recorded outcome is a Skipped outcome, the step declared next is recorded as well,
  so a skip does not halt the run.
\<close>

theorem failed_step_halts_run:
  assumes "distinct (map name (steps self))"
    and "execute self trigger_data = Inr report"
    and "steps self = before @ s # after"
    and "map_of (step_results_of report) (name s) = Some (PDict outcome)"
  shows "(''error'' \<in> fst ` set outcome \<longrightarrow>
            (\<forall>s'\<in>set after. name s' \<notin> fst ` set (step_results_of report))) \<and>
         ((\<exists>r. outcome = [(''skipped'', PBool True), (''reason'', PStr r)]) \<longrightarrow>
            (\<forall>s'\<in>set (take 1 after). name s' \<in> fst ` set (step_results_of report)))"
proof (cases "orchestrator self")
  case None
  then have "step_results_of report = []"
    using assms(2) by (auto simp add: execute_def step_results_of_def)
  then show ?thesis using assms(4) by simp
next
  case (Some orch)
  obtain sr' where run: "run_steps self (steps self) (initial_results trigger_data []) =
      Inr (initial_results trigger_data sr')"
    using run_steps_shape by blast
  then have report: "report = initial_results trigger_data sr'"
    using assms(2) Some by (simp add: execute_def initial_results_def)
  have run': "run_steps self (before @ s # after) (initial_results trigger_data []) =
      Inr (initial_results trigger_data sr')"
    using run assms(3) by simp
  have dist: "distinct (map name (before @ s # after))" using assms(1,3) by simp
  have out: "map_of sr' (name s) = Some (PDict outcome)" using assms(4) report by simp
  have failed: "\<forall>s'\<in>set after. name s' \<notin> fst ` set sr'" if "''error'' \<in> fst ` set outcome"
    using run_steps_failed_halts [OF run' dist _ out that] by simp
  have skipped: "\<forall>s'\<in>set (take 1 after). name s' \<in> fst ` set sr'"
    if "outcome = [(''skipped'', PBool True), (''reason'', PStr r)]" for r
  proof (cases after)
    case Nil
    then show ?thesis by simp
  next
    case (Cons s' rest)
    have "name s' \<in> fst ` set sr'"
      using run_steps_skipped_continues [of self before s s' rest trigger_data "[]" sr' r]
        run' dist out that Cons by simp
    then show ?thesis using Cons by simp
  qed
  show ?thesis using failed skipped report by auto
qed

theorem failed_step_halts_run_witness:
  "''voting'' \<notin> fst ` set (step_results_of (projr (execute no_agents PNone))) \<and>
   ''quantum_escalation'' \<notin> fst ` set (step_results_of (projr (execute no_agents PNone))) \<and>
   ''collective_reasoning'' \<in> fst ` set (step_results_of (projr (execute no_agents PNone)))"
proof -
  let ?report = "projr (execute no_agents PNone)"
  have run: "execute no_agents PNone = Inr ?report"
    by (simp add: no_agents_run)
  have dist: "distinct (map name (steps no_agents))"
    by (simp add: no_agents_def OutbreakDetectionWorkflow_def define_steps_def)
  have split1: "steps no_agents = take 3 define_steps @ define_steps ! 3 # drop 4 define_steps"
    by (simp add: no_agents_def OutbreakDetectionWorkflow_def define_steps_def)
  have out1: "map_of (step_results_of ?report) (name (define_steps ! 3)) =
      Some (PDict [(''error'', PStr ''max() arg is an empty sequence'')])"
    by (simp add: no_agents_run step_results_of_def define_steps_def)
  have split2: "steps no_agents = take 1 define_steps @ define_steps ! 1 # drop 2 define_steps"
    by (simp add: no_agents_def OutbreakDetectionWorkflow_def define_steps_def)
  have out2: "map_of (step_results_of ?report) (name (define_steps ! 1)) =
      Some (PDict [(''skipped'', PBool True),
                   (''reason'', PStr ''Condition not met: anomaly_detected == true'')])"
    by (simp add: no_agents_run step_results_of_def define_steps_def)
  from failed_step_halts_run [OF dist run split1 out1]
  have "\<forall>s'\<in>set (drop 4 define_steps). name s' \<notin> fst ` set (step_results_of ?report)"
    by simp
  moreover from failed_step_halts_run [OF dist run split2 out2]
  have "\<forall>s'\<in>set (take 1 (drop 2 define_steps)). name s' \<in> fst ` set (step_results_of ?report)"
    by blast
  ultimately show ?thesis by (simp add: define_steps_def)
qed

section \<open>Parallel steps\<close>

lemma run_parallel_distinct:
  "distinct (map fst selected) \<Longrightarrow> \<forall>k\<in>fst ` set selected. k \<notin> fst ` set acc \<Longrightarrow>
   run_parallel selected action context acc =
     acc @ map (\<lambda>(agent_id, agent). (agent_id, agent_entry agent action context)) selected"
proof (induction selected arbitrary: acc)
  case Nil
  show ?case by simp
next
  case (Cons p rest)
  obtain k a where p: "p = (k, a)" by (cases p)
  have fresh: "k \<notin> fst ` set acc" using Cons.prems(2) p by simp
  have d: "distinct (map fst rest)" using Cons.prems(1) by simp
  have "\<forall>k'\<in>fst ` set rest. k' \<notin> fst ` set (acc @ [(k, agent_entry a action context)])"
    using Cons.prems p by (auto simp add: image_iff)
  from Cons.IH [OF d this] show ?case using p fresh by (simp add: update_fresh)
qed

lemma is_error_entry_agent_entry:
  "is_error_entry (agent_entry agent action context) =
     isl (execute_agent_action agent action context)"
  by (auto simp add: is_error_entry_def agent_entry_def split: sum.splits
      dest: execute_agent_action_keys)

lemma filter_entries:
  "length (filter (\<lambda>(k, v). P v) (map (\<lambda>(k, a). (k, f a)) xs)) =
   length (filter (\<lambda>(k, a). P (f a)) xs)"
  by (induction xs) auto

lemma length_filter_split:
  "length (filter (\<lambda>(k, v). P v) xs) + length (filter (\<lambda>(k, v). \<not> P v) xs) = length xs"
  by (induction xs) auto

lemma three_agents_run:
  "execute three_agents PNone =
     Inr (initial_results PNone
      [(''local_analysis'', PDict [(''parallel_results'', PDict
         [(''pune'', PDict [(''action'', PStr ''analyze_symptoms''), (''risk_level'', PStr ''low'')]),
          (''nashik'', PDict [(''action'', PStr ''analyze_symptoms''),
                              (''risk_level'', PStr ''critical'')]),
          (''satara'', PDict [(''error'', PStr ''sensor offline'')])])]),
       (''neighbor_consultation'', PDict [(''parallel_results'', PDict
         [(''pune'', PDict [(''action'', PStr ''query_neighbors''), (''neighbors_queried'', PBool True)]),
          (''nashik'', PDict [(''action'', PStr ''query_neighbors''), (''neighbors_queried'', PBool True)]),
          (''satara'', PDict [(''action'', PStr ''query_neighbors''), (''neighbors_queried'', PBool True)])])]),
       (''collective_reasoning'', PDict [(''parallel_results'', PDict
         [(''pune'', PDict [(''action'', PStr ''reason_about_collective_evidence''),
                            (''status'', PStr ''completed'')]),
          (''nashik'', PDict [(''action'', PStr ''reason_about_collective_evidence''),
                              (''status'', PStr ''completed'')]),
          (''satara'', PDict [(''action'', PStr ''reason_about_collective_evidence''),
                              (''status'', PStr ''completed'')])])]),
       (''consensus_proposal'',
          PDict [(''action'', PStr ''propose_consensus''), (''proposal_made'', PBool True)]),
       (''voting'', PDict [(''parallel_results'', PDict
         [(''pune'', PDict [(''action'', PStr ''vote''), (''vote'', PStr ''approve'')]),
          (''nashik'', PDict [(''action'', PStr ''vote''), (''vote'', PStr ''approve'')]),
          (''satara'', PDict [(''action'', PStr ''vote''), (''vote'', PStr ''approve'')])])]),
       (''quantum_escalation'',
          PDict [(''skipped'', PBool True),
                 (''reason'', PStr ''Condition not met: consensus_reached == true'')])])"
  by (simp add: three_agents_def example_agents_def run_simps initial_results_def)

text \<open>
  C3. Take a parallel step that is run (its condition and dependencies are met) over \<open>N\<close>
  selected agents, exactly one of whose invocations raises (an exception deriving from
  \<^verbatim>\<open>Exception\<close>, as every value of \<open>error\<close> is). Its outcome is a \<^verbatim>\<open>parallel_results\<close>
  dictionary with one entry per selected agent: \<open>N\<close> entries, exactly one of them an error
  entry and \<open>N - 1\<close> of them the normal results of the other agents. The outcome itself
  carries no \<^verbatim>\<open>error\<close> key. The loop of \<^verbatim>\<open>execute\<close> records this outcome under the
  step's name and goes on with the remaining steps; and in every report of a run that
  reached the step in that context, the outcome recorded at the step's position is this
  dictionary and the step declared next, if there is one, is recorded as well.
\<close>

theorem parallel_step_isolates_failure:
  assumes "parallel step"
    and "unmet_condition step context = Inr None"
    and "missing_dependency (case depends_on step of None \<Rightarrow> [] | Some deps \<Rightarrow> deps) context = Inr None"
    and "select_agents self step = Inr selected"
    and "distinct (map fst selected)"
    and "length (filter (\<lambda>(agent_id, agent).
            isl (execute_agent_action agent (agent_action step) context)) selected) = 1"
  shows "\<exists>entries.
      execute_step self step context = Inr [(''parallel_results'', PDict entries)] \<and>
      entries = map (\<lambda>(agent_id, agent).
                  (agent_id, agent_entry agent (agent_action step) context)) selected \<and>
      length entries = length selected \<and>
      length (filter (\<lambda>(agent_id, entry). is_error_entry entry) entries) = 1 \<and>
      length (filter (\<lambda>(agent_id, entry). \<not> is_error_entry entry) entries) = length selected - 1 \<and>
      \<not> is_error_entry (PDict [(''parallel_results'', PDict entries)]) \<and>
      should_continue step [(''parallel_results'', PDict entries)] \<and>
      (\<forall>t sr rest. context = initial_results t sr \<longrightarrow>
         run_steps self (step # rest) context =
           run_steps self rest
             (initial_results t
                (AList.update (name step) (PDict [(''parallel_results'', PDict entries)]) sr))) \<and>
      (\<forall>t report k.
         orchestrator self \<noteq> None \<and> distinct (map name (steps self)) \<and>
         execute self t = Inr report \<and> k < length (step_results_of report) \<and>
         steps self ! k = step \<and>
         context = initial_results t (take k (step_results_of report)) \<longrightarrow>
           step_results_of report ! k =
             (name step, PDict [(''parallel_results'', PDict entries)]) \<and>
           (Suc k < length (steps self) \<longrightarrow> Suc k < length (step_results_of report)))"
proof -
  let ?entries = "map (\<lambda>(agent_id, agent).
                  (agent_id, agent_entry agent (agent_action step) context)) selected"
  let ?outcome = "[(''parallel_results'', PDict ?entries)]"
  have par: "run_parallel selected (agent_action step) context [] = ?entries"
    using run_parallel_distinct [OF assms(5), of "[]"] by simp
  have step: "execute_step self step context = Inr ?outcome"
    using assms(1-4) par by (simp add: execute_step_def)
  have "length (filter (\<lambda>(agent_id, entry). is_error_entry entry) ?entries) =
      length (filter (\<lambda>(agent_id, agent).
          is_error_entry (agent_entry agent (agent_action step) context)) selected)"
    by (rule filter_entries)
  then have errs: "length (filter (\<lambda>(agent_id, entry). is_error_entry entry) ?entries) = 1"
    using assms(6) by (simp only: is_error_entry_agent_entry)
  have "length (filter (\<lambda>(agent_id, entry). is_error_entry entry) ?entries) +
        length (filter (\<lambda>(agent_id, entry). \<not> is_error_entry entry) ?entries) = length ?entries"
    by (rule length_filter_split)
  then have oks: "length (filter (\<lambda>(agent_id, entry). \<not> is_error_entry entry) ?entries) =
      length selected - 1"
    using errs by simp
  have cont: "should_continue step ?outcome"
    by (simp add: should_continue_def dict_get_def)
  have nofail: "\<not> is_error_entry (PDict ?outcome)"
    by (simp add: is_error_entry_def)
  have loop: "run_steps self (step # rest) context =
      run_steps self rest (initial_results t (AList.update (name step) (PDict ?outcome) sr))"
    if "context = initial_results t sr" for t sr rest
    using step cont that by (simp add: run_steps_Cons)
  have report: "step_results_of report ! k = (name step, PDict ?outcome) \<and>
      (Suc k < length (steps self) \<longrightarrow> Suc k < length (step_results_of report))"
    if configured: "orchestrator self \<noteq> None"
      and names: "distinct (map name (steps self))"
      and run: "execute self t = Inr report"
      and k: "k < length (step_results_of report)"
      and at: "steps self ! k = step"
      and ctx: "context = initial_results t (take k (step_results_of report))"
    for t report k
  proof -
    from execute_trace [OF configured names, of t] obtain sr where
      r: "execute self t = Inr (initial_results t sr)"
      and a: "map fst sr = map name (take (length sr) (steps self))"
      and b: "\<forall>k<length sr. snd (sr ! k) =
        PDict (recorded (execute_step self (steps self ! k) (initial_results t (take k sr))))"
      and e: "length sr < length (steps self) \<longrightarrow> sr \<noteq> [] \<and>
        halts_run (steps self ! (length sr - 1))
          (execute_step self (steps self ! (length sr - 1))
             (initial_results t (take (length sr - 1) sr)))"
      by blast
    have sr: "step_results_of report = sr" using r run by simp
    have k': "k < length sr" using k sr by simp
    have here: "execute_step self (steps self ! k) (initial_results t (take k sr)) = Inr ?outcome"
      using step at ctx sr by simp
    have "length (map fst sr) = length (map name (take (length sr) (steps self)))"
      using a by simp
    then have le: "length sr \<le> length (steps self)" by simp
    have "fst (sr ! k) = map fst sr ! k" using k' by simp
    also have "\<dots> = map name (take (length sr) (steps self)) ! k" using a by simp
    also have "\<dots> = name (steps self ! k)" using k' le by simp
    finally have "fst (sr ! k) = name (steps self ! k)" .
    moreover have "snd (sr ! k) = PDict ?outcome"
      using b k' here by (simp add: recorded_def)
    ultimately have entry: "sr ! k = (name step, PDict ?outcome)"
      using at by (simp add: prod_eq_iff)
    have next_step: "Suc k < length sr" if "Suc k < length (steps self)"
    proof (rule ccontr)
      assume "\<not> Suc k < length sr"
      then have len: "length sr = Suc k" using k' by simp
      then have "length sr < length (steps self)" using that by simp
      with e len have "halts_run (steps self ! k)
          (execute_step self (steps self ! k) (initial_results t (take k sr)))" by simp
      then show False using here at cont by (simp add: halts_run_def)
    qed
    show ?thesis using entry next_step sr by simp
  qed
  have L: "\<forall>t sr rest. context = initial_results t sr \<longrightarrow>
         run_steps self (step # rest) context =
           run_steps self rest
             (initial_results t (AList.update (name step) (PDict ?outcome) sr))"
    using loop by blast
  have R: "\<forall>t report k.
         orchestrator self \<noteq> None \<and> distinct (map name (steps self)) \<and>
         execute self t = Inr report \<and> k < length (step_results_of report) \<and>
         steps self ! k = step \<and>
         context = initial_results t (take k (step_results_of report)) \<longrightarrow>
           step_results_of report ! k = (name step, PDict ?outcome) \<and>
           (Suc k < length (steps self) \<longrightarrow> Suc k < length (step_results_of report))"
    using report by blast
  have len: "length ?entries = length selected" by simp
  show ?thesis
    by (intro exI [of _ ?entries] conjI)
       (rule step, rule refl, rule len, rule errs, rule oks, rule nofail, rule cont, rule L, rule R)
qed

theorem parallel_step_isolates_failure_witness:
  "execute_step three_agents (define_steps ! 0) (initial_results PNone []) =
     Inr [(''parallel_results'', PDict
        [(''pune'', PDict [(''action'', PStr ''analyze_symptoms''), (''risk_level'', PStr ''low'')]),
         (''nashik'', PDict [(''action'', PStr ''analyze_symptoms''), (''risk_level'', PStr ''critical'')]),
         (''satara'', PDict [(''error'', PStr ''sensor offline'')])])] \<and>
   step_results_of (projr (execute three_agents PNone)) ! 0 =
     (''local_analysis'', PDict [(''parallel_results'', PDict
        [(''pune'', PDict [(''action'', PStr ''analyze_symptoms''), (''risk_level'', PStr ''low'')]),
         (''nashik'', PDict [(''action'', PStr ''analyze_symptoms''), (''risk_level'', PStr ''critical'')]),
         (''satara'', PDict [(''error'', PStr ''sensor offline'')])])]) \<and>
   1 < length (step_results_of (projr (execute three_agents PNone)))"
proof -
  let ?step = "define_steps ! 0"
  let ?ctx = "initial_results PNone []"
  let ?report = "projr (execute three_agents PNone)"
  have 1: "parallel ?step" by (simp add: define_steps_def)
  have 2: "unmet_condition ?step ?ctx = Inr None"
    by (simp add: define_steps_def unmet_condition_def)
  have 3: "missing_dependency (case depends_on ?step of None \<Rightarrow> [] | Some deps \<Rightarrow> deps) ?ctx = Inr None"
    by (simp add: define_steps_def)
  have 4: "select_agents three_agents ?step = Inr example_agents"
    by (simp add: define_steps_def select_agents_def three_agents_def OutbreakDetectionWorkflow_def)
  have 5: "distinct (map fst example_agents)" by (simp add: example_agents_def)
  have 6: "length (filter (\<lambda>(agent_id, agent).
            isl (execute_agent_action agent (agent_action ?step) ?ctx)) example_agents) = 1"
    by (simp add: example_agents_def define_steps_def execute_agent_action_def)
  have run: "orchestrator three_agents \<noteq> None \<and> distinct (map name (steps three_agents)) \<and>
      execute three_agents PNone = Inr ?report \<and> 0 < length (step_results_of ?report) \<and>
      steps three_agents ! 0 = ?step \<and>
      ?ctx = initial_results PNone (take 0 (step_results_of ?report)) \<and>
      Suc 0 < length (steps three_agents)"
    by (simp add: three_agents_run)
       (simp add: three_agents_def OutbreakDetectionWorkflow_def define_steps_def)
  from parallel_step_isolates_failure [OF 1 2 3 4 5 6] obtain entries where
    e1: "execute_step three_agents ?step ?ctx = Inr [(''parallel_results'', PDict entries)]"
    and e2: "entries = map (\<lambda>(agent_id, agent).
                  (agent_id, agent_entry agent (agent_action ?step) ?ctx)) example_agents"
    and e3: "\<forall>t report k.
         orchestrator three_agents \<noteq> None \<and> distinct (map name (steps three_agents)) \<and>
         execute three_agents t = Inr report \<and> k < length (step_results_of report) \<and>
         steps three_agents ! k = ?step \<and>
         ?ctx = initial_results t (take k (step_results_of report)) \<longrightarrow>
           step_results_of report ! k =
             (name ?step, PDict [(''parallel_results'', PDict entries)]) \<and>
           (Suc k < length (steps three_agents) \<longrightarrow> Suc k < length (step_results_of report))"
    by blast
  from e3 run have "step_results_of ?report ! 0 =
       (name ?step, PDict [(''parallel_results'', PDict entries)]) \<and>
     Suc 0 < length (step_results_of ?report)"
    by blast
  with e1 e2 show ?thesis
    by (simp add: example_agents_def define_steps_def agent_entry_def execute_agent_action_def)
qed

section \<open>Conditions and dependencies\<close>

lemma missing_dependency_find:
  "dict_get context ''step_results'' (PDict []) = PDict sr \<Longrightarrow>
   missing_dependency deps context = Inr (find (\<lambda>dep. dep \<notin> fst ` set sr) deps)"
  by (induction deps) auto

text \<open>
  C4 (as amended). The condition is checked before the dependencies. A step whose
  precondition is present and evaluates to a falsy value is Skipped with the reason
  \<^verbatim>\<open>Condition not met: <condition>\<close>, whatever its dependencies. Otherwise (the precondition
  is absent, empty or holds), a step with a dependency that is not among the recorded step
  results is Skipped with the reason \<^verbatim>\<open>Dependency not met: <name>\<close>, naming the first such
  dependency; in both cases no agent is selected and no action is executed.
\<close>

theorem condition_checked_before_dependencies:
  "(condition step = Some c \<and> c \<noteq> [] \<and> evaluate_condition c context = Inr v \<and> \<not> truthy v \<longrightarrow>
      execute_step self step context =
        Inr [(''skipped'', PBool True), (''reason'', PStr (''Condition not met: '' @ c))]) \<and>
   (unmet_condition step context = Inr None \<and>
    dict_get context ''step_results'' (PDict []) = PDict sr \<and>
    depends_on step = Some deps \<and> find (\<lambda>dep. dep \<notin> fst ` set sr) deps = Some dep \<longrightarrow>
      execute_step self step context =
        Inr [(''skipped'', PBool True), (''reason'', PStr (''Dependency not met: '' @ dep))])"
  by (auto simp add: execute_step_def unmet_condition_def missing_dependency_find)

theorem condition_checked_before_dependencies_witness:
  "execute_step three_agents gated_step (initial_results PNone []) =
     Inr [(''skipped'', PBool True),
          (''reason'', PStr ''Condition not met: consensus_reached == true'')] \<and>
   execute_step three_agents (define_steps ! 2) (initial_results PNone []) =
     Inr [(''skipped'', PBool True),
          (''reason'', PStr ''Dependency not met: neighbor_consultation'')]"
proof -
  let ?ctx = "initial_results PNone []"
  have a: "condition gated_step = Some ''consensus_reached == true'' \<and>
      ''consensus_reached == true'' \<noteq> [] \<and>
      evaluate_condition ''consensus_reached == true'' ?ctx = Inr (PBool False) \<and>
      \<not> truthy (PBool False)"
    by (simp add: gated_step_def evaluate_condition_def sublist_Cons_right dict_get_def initial_results_def)
  have b: "unmet_condition (define_steps ! 2) ?ctx = Inr None \<and>
      dict_get ?ctx ''step_results'' (PDict []) = PDict [] \<and>
      depends_on (define_steps ! 2) = Some [''neighbor_consultation''] \<and>
      find (\<lambda>dep. dep \<notin> fst ` set []) [''neighbor_consultation''] = Some ''neighbor_consultation''"
    by (simp add: define_steps_def unmet_condition_def)
  from condition_checked_before_dependencies
      [of gated_step "''consensus_reached == true''" ?ctx "PBool False" three_agents]
    condition_checked_before_dependencies
      [of "define_steps ! 2" _ ?ctx _ three_agents "[]" "[''neighbor_consultation'']"
          "''neighbor_consultation''"]
    a b
  show ?thesis by simp
qed

text \<open>
  C4 as stated fails: the step has a precondition and a dependency, the dependency
  \<^verbatim>\<open>voting\<close> is not recorded, and the outcome names the condition, not the dependency.
\<close>

theorem dependency_first_counterexample:
  "condition gated_step = Some ''consensus_reached == true'' \<and>
   depends_on gated_step = Some [''voting''] \<and>
   ''voting'' \<notin> fst ` set (step_results_of (initial_results PNone [])) \<and>
   execute_step three_agents gated_step (initial_results PNone []) =
     Inr [(''skipped'', PBool True),
          (''reason'', PStr ''Condition not met: consensus_reached == true'')] \<and>
   execute_step three_agents gated_step (initial_results PNone []) \<noteq>
     Inr [(''skipped'', PBool True), (''reason'', PStr ''Dependency not met: voting'')]"
  by (simp add: gated_step_def execute_step_def unmet_condition_def evaluate_condition_def
      sublist_Cons_right dict_get_def initial_results_def step_results_of_def)

section \<open>Selection against an empty registry\<close>

text \<open>
  C5. With a configured orchestrator whose registry is empty, only the default strategy
  yields the empty mapping: \<^verbatim>\<open>max\<close> raises ValueError for \<^verbatim>\<open>max_outbreak_belief\<close> and
  the index \<^verbatim>\<open>[0]\<close> raises IndexError for \<^verbatim>\<open>proposer\<close>. The run records the message of
  the ValueError for \<^verbatim>\<open>consensus_proposal\<close>, not \<^verbatim>\<open>No agent selected\<close>.
\<close>

theorem select_agents_empty_registry:
  "select_agents no_agents (define_steps ! 3) =
      Inl (ValueError ''max() arg is an empty sequence'') \<and>
   select_agents no_agents (define_steps ! 5) = Inl (IndexError ''list index out of range'') \<and>
   select_agents no_agents (define_steps ! 0) = Inr [] \<and>
   map_of (step_results_of (projr (execute no_agents PNone))) ''consensus_proposal'' =
      Some (PDict [(''error'', PStr ''max() arg is an empty sequence'')])"
  by (simp add: no_agents_run step_results_of_def)
     (simp add: no_agents_def OutbreakDetectionWorkflow_def define_steps_def select_agents_def)

section \<open>Unrecognized conditions\<close>

text \<open>
  C8 (as amended). A condition that contains neither \<^verbatim>\<open>anomaly_detected == true\<close> nor
  \<^verbatim>\<open>consensus_reached == true\<close> as a substring evaluates to \<^verbatim>\<open>True\<close> in every context,
  and a step guarded by it is never skipped for its condition.
\<close>

theorem unrecognized_condition_fail_open:
  assumes "\<not> sublist ''anomaly_detected == true'' c"
    and "\<not> sublist ''consensus_reached == true'' c"
  shows "evaluate_condition c context = Inr (PBool True) \<and>
         (condition step = Some c \<longrightarrow> unmet_condition step context = Inr None)"
  using assms by (simp add: evaluate_condition_def unmet_condition_def)

theorem unrecognized_condition_fail_open_witness:
  "evaluate_condition ''risk_score > 3'' (initial_results PNone []) = Inr (PBool True) \<and>
   unmet_condition (gated_step\<lparr>condition := Some ''risk_score > 3''\<rparr>) (initial_results PNone []) =
     Inr None"
proof -
  have 1: "\<not> sublist ''anomaly_detected == true'' ''risk_score > 3''"
    by (simp add: sublist_Cons_right)
  have 2: "\<not> sublist ''consensus_reached == true'' ''risk_score > 3''"
    by (simp add: sublist_Cons_right)
  from unrecognized_condition_fail_open
    [OF 1 2, of "initial_results PNone []" "gated_step\<lparr>condition := Some ''risk_score > 3''\<rparr>"]
  show ?thesis by simp
qed

text \<open>
  C8 as stated fails when the known predicates are matched exactly: the expression below is
  neither of the two known strings, contains the first of them, and evaluates to
  \<^verbatim>\<open>False\<close>, so that a step guarded by it is skipped.
\<close>

theorem unrecognized_condition_counterexample:
  "''no_anomaly_detected == true'' \<noteq> ''anomaly_detected == true'' \<and>
   ''no_anomaly_detected == true'' \<noteq> ''consensus_reached == true'' \<and>
   evaluate_condition ''no_anomaly_detected == true'' (initial_results PNone []) =
     Inr (PBool False) \<and>
   execute_step three_agents (gated_step\<lparr>condition := Some ''no_anomaly_detected == true''\<rparr>)
       (initial_results PNone []) =
     Inr [(''skipped'', PBool True),
          (''reason'', PStr ''Condition not met: no_anomaly_detected == true'')]"
  by (simp add: gated_step_def execute_step_def unmet_condition_def evaluate_condition_def
      sublist_Cons_right dict_get_def initial_results_def)

section \<open>The anomaly predicate\<close>

lemma any_high_risk_dicts:
  "\<forall>v\<in>set vs. \<exists>d. v = PDict d \<Longrightarrow>
   any_high_risk vs = Inr (PBool (\<exists>v\<in>set vs. reports_high_risk v))"
proof (induction vs)
  case Nil
  show ?case by simp
next
  case (Cons v vs)
  then obtain d where v: "v = PDict d" by auto
  have ih: "any_high_risk vs = Inr (PBool (\<exists>v\<in>set vs. reports_high_risk v))"
    using Cons by simp
  show ?case
  proof (cases "map_of d ''risk_level''")
    case None
    then show ?thesis using v ih by (simp add: dict_get_def reports_high_risk_def)
  next
    case (Some level)
    then show ?thesis using v ih by (auto simp add: dict_get_def reports_high_risk_def)
  qed
qed

lemma execute_agent_action_context:
  "execute_agent_action agent action ctx = execute_agent_action agent action []"
  by (simp add: execute_agent_action_def)

lemma agent_entry_context: "agent_entry agent action ctx = agent_entry agent action []"
  by (simp add: agent_entry_def execute_agent_action_context [of agent action ctx])

lemma run_parallel_context:
  "run_parallel selected action ctx acc = run_parallel selected action [] acc"
proof (induction selected arbitrary: acc)
  case Nil
  show ?case by simp
next
  case (Cons p rest)
  obtain k a where p: "p = (k, a)" by (cases p)
  show ?case using Cons.IH p agent_entry_context [of a action ctx] by simp
qed

lemma agent_entry_dict: "\<exists>d. agent_entry agent action ctx = PDict d"
  by (simp add: agent_entry_def split: sum.splits)

lemma update_values: "snd ` set (AList.update k v al) \<subseteq> insert v (snd ` set al)"
  by (induction al) auto

lemma run_parallel_values:
  "v \<in> snd ` set (run_parallel selected action ctx acc) \<Longrightarrow>
   v \<in> snd ` set acc \<or> (\<exists>a\<in>snd ` set selected. v = agent_entry a action ctx)"
proof (induction selected arbitrary: acc)
  case Nil
  then show ?case by simp
next
  case (Cons p rest)
  obtain k a where p: "p = (k, a)" by (cases p)
  from Cons.prems p
  have "v \<in> snd ` set (run_parallel rest action ctx
      (AList.update k (agent_entry a action ctx) acc))" by simp
  from Cons.IH [OF this]
  consider "v \<in> snd ` set (AList.update k (agent_entry a action ctx) acc)"
    | "\<exists>a\<in>snd ` set rest. v = agent_entry a action ctx" by blast
  then show ?case
  proof cases
    case 1
    then have "v \<in> snd ` set acc \<or> v = agent_entry a action ctx"
      using update_values [of k "agent_entry a action ctx" acc] by auto
    then show ?thesis using p by auto
  next
    case 2
    then show ?thesis by auto
  qed
qed

lemma run_parallel_keys:
  "fst ` set (run_parallel selected action ctx acc) = fst ` set acc \<union> fst ` set selected"
proof (induction selected arbitrary: acc)
  case Nil
  show ?case by simp
next
  case (Cons p rest)
  obtain k a where p: "p = (k, a)" by (cases p)
  show ?case using Cons.IH p by (auto simp add: dom_update)
qed

lemma run_parallel_dicts:
  "\<forall>v\<in>snd ` set (run_parallel selected action ctx []). \<exists>d. v = PDict d"
  using run_parallel_values [of _ selected action ctx "[]"] agent_entry_dict by fastforce


section \<open>The built-in workflow, step by step\<close>

lemma builtin_steps:
  "define_steps = [define_steps ! 0, define_steps ! 1, define_steps ! 2,
                   define_steps ! 3, define_steps ! 4, define_steps ! 5]"
  by (simp add: define_steps_def)

lemma builtin_names:
  "name (define_steps ! 0) = ''local_analysis''"
  "name (define_steps ! 1) = ''neighbor_consultation''"
  "name (define_steps ! 2) = ''collective_reasoning''"
  "name (define_steps ! 3) = ''consensus_proposal''"
  "name (define_steps ! 4) = ''voting''"
  "name (define_steps ! 5) = ''quantum_escalation''"
  by (simp_all add: define_steps_def)

lemma local_analysis_step:
  "execute_step (OutbreakDetectionWorkflow (Some orch)) (define_steps ! 0) ctx =
     Inr [(''parallel_results'', PDict (run_parallel (agents orch) ''analyze_symptoms'' [] []))]"
  using run_parallel_context [of "agents orch" "''analyze_symptoms''" ctx "[]"]
  by (simp add: execute_step_def define_steps_def unmet_condition_def select_agents_def
      OutbreakDetectionWorkflow_def)

lemma neighbor_consultation_step:
  assumes "dict_get ctx ''step_results'' (PDict []) = PDict sr"
    and "map_of sr ''local_analysis'' = Some (PDict [(''parallel_results'', PDict entries)])"
    and "\<forall>v\<in>snd ` set entries. \<exists>d. v = PDict d"
  shows "execute_step (OutbreakDetectionWorkflow (Some orch)) (define_steps ! 1) ctx =
     Inr (if \<exists>v\<in>snd ` set entries. reports_high_risk v
          then [(''parallel_results'', PDict (run_parallel (agents orch) ''query_neighbors'' [] []))]
          else [(''skipped'', PBool True),
                (''reason'', PStr ''Condition not met: anomaly_detected == true'')])"
proof -
  have "evaluate_condition ''anomaly_detected == true'' ctx =
      Inr (PBool (\<exists>v\<in>snd ` set entries. reports_high_risk v))"
    using assms(1,2) any_high_risk_dicts [of "map snd entries"] assms(3)
    by (simp add: evaluate_condition_def dict_get_def)
  then show ?thesis
    using run_parallel_context [of "agents orch" "''query_neighbors''" ctx "[]"]
    by (simp add: execute_step_def define_steps_def unmet_condition_def select_agents_def
        OutbreakDetectionWorkflow_def)
qed

lemma collective_reasoning_step:
  assumes "dict_get ctx ''step_results'' (PDict []) = PDict sr"
    and "''neighbor_consultation'' \<in> fst ` set sr"
  shows "execute_step (OutbreakDetectionWorkflow (Some orch)) (define_steps ! 2) ctx =
     Inr [(''parallel_results'',
           PDict (run_parallel (agents orch) ''reason_about_collective_evidence'' [] []))]"
  using assms run_parallel_context [of "agents orch" "''reason_about_collective_evidence''" ctx "[]"]
  by (simp add: execute_step_def define_steps_def unmet_condition_def select_agents_def
      OutbreakDetectionWorkflow_def)

lemma consensus_proposal_step:
  assumes "agents orch \<noteq> []"
  shows "execute_step (OutbreakDetectionWorkflow (Some orch)) (define_steps ! 3) ctx =
     Inr [(''action'', PStr ''propose_consensus''), (''proposal_made'', PBool True)]"
proof -
  obtain x xs where "agents orch = x # xs" using assms by (cases "agents orch") auto
  then show ?thesis
    by (simp add: execute_step_def define_steps_def unmet_condition_def select_agents_def
        OutbreakDetectionWorkflow_def execute_agent_action_def split: prod.splits)
qed

lemma voting_step:
  assumes "dict_get ctx ''step_results'' (PDict []) = PDict sr"
    and "''consensus_proposal'' \<in> fst ` set sr"
  shows "execute_step (OutbreakDetectionWorkflow (Some orch)) (define_steps ! 4) ctx =
     Inr [(''parallel_results'', PDict (run_parallel (agents orch) ''vote'' [] []))]"
  using assms run_parallel_context [of "agents orch" "''vote''" ctx "[]"]
  by (simp add: execute_step_def define_steps_def unmet_condition_def select_agents_def
      OutbreakDetectionWorkflow_def)

lemma quantum_escalation_step:
  assumes "dict_get ctx ''step_results'' (PDict []) = PDict sr"
    and "map_of sr ''voting'' = Some (PDict [(''parallel_results'', PDict votes)])"
  shows "execute_step (OutbreakDetectionWorkflow (Some orch)) (define_steps ! 5) ctx =
     Inr [(''skipped'', PBool True),
          (''reason'', PStr ''Condition not met: consensus_reached == true'')]"
  using assms
  by (simp add: execute_step_def define_steps_def unmet_condition_def evaluate_condition_def
      sublist_Cons_right dict_get_def)


lemma builtin_run:
  assumes "agents orch \<noteq> []"
  shows "execute (OutbreakDetectionWorkflow (Some orch)) t =
    Inr (initial_results t
     [(''local_analysis'',
         PDict [(''parallel_results'', PDict (run_parallel (agents orch) ''analyze_symptoms'' [] []))]),
      (''neighbor_consultation'',
         PDict (if \<exists>v\<in>snd ` set (run_parallel (agents orch) ''analyze_symptoms'' [] []).
                     reports_high_risk v
                then [(''parallel_results'',
                       PDict (run_parallel (agents orch) ''query_neighbors'' [] []))]
                else [(''skipped'', PBool True),
                      (''reason'', PStr ''Condition not met: anomaly_detected == true'')])),
      (''collective_reasoning'',
         PDict [(''parallel_results'',
                 PDict (run_parallel (agents orch) ''reason_about_collective_evidence'' [] []))]),
      (''consensus_proposal'',
         PDict [(''action'', PStr ''propose_consensus''), (''proposal_made'', PBool True)]),
      (''voting'',
         PDict [(''parallel_results'', PDict (run_parallel (agents orch) ''vote'' [] []))]),
      (''quantum_escalation'',
         PDict [(''skipped'', PBool True),
                (''reason'', PStr ''Condition not met: consensus_reached == true'')])])"
proof -
  let ?W = "OutbreakDetectionWorkflow (Some orch)"
  define la where "la = run_parallel (agents orch) ''analyze_symptoms'' [] []"
  define nc where "nc =
     (if \<exists>v\<in>snd ` set la. reports_high_risk v
      then [(''parallel_results'', PDict (run_parallel (agents orch) ''query_neighbors'' [] []))]
      else [(''skipped'', PBool True),
            (''reason'', PStr ''Condition not met: anomaly_detected == true'')])"
  define cr where "cr = run_parallel (agents orch) ''reason_about_collective_evidence'' [] []"
  define votes where "votes = run_parallel (agents orch) ''vote'' [] []"
  let ?o0 = "[(''parallel_results'', PDict la)]"
  let ?o2 = "[(''parallel_results'', PDict cr)]"
  let ?o3 = "[(''action'', PStr ''propose_consensus''), (''proposal_made'', PBool True)]"
  let ?o4 = "[(''parallel_results'', PDict votes)]"
  let ?o5 = "[(''skipped'', PBool True),
              (''reason'', PStr ''Condition not met: consensus_reached == true'')]"
  let ?sr1 = "[(''local_analysis'', PDict ?o0)]"
  let ?sr2 = "?sr1 @ [(''neighbor_consultation'', PDict nc)]"
  let ?sr3 = "?sr2 @ [(''collective_reasoning'', PDict ?o2)]"
  let ?sr4 = "?sr3 @ [(''consensus_proposal'', PDict ?o3)]"
  let ?sr5 = "?sr4 @ [(''voting'', PDict ?o4)]"
  let ?sr6 = "?sr5 @ [(''quantum_escalation'', PDict ?o5)]"
  have dicts: "\<forall>v\<in>snd ` set la. \<exists>d. v = PDict d"
    unfolding la_def by (rule run_parallel_dicts)
  have e0: "execute_step ?W (define_steps ! 0) (initial_results t []) = Inr ?o0"
    unfolding la_def by (rule local_analysis_step)
  have e1: "execute_step ?W (define_steps ! 1) (initial_results t ?sr1) = Inr nc"
    unfolding nc_def
    by (rule neighbor_consultation_step [where sr = ?sr1]) (simp_all add: dicts)
  have e2: "execute_step ?W (define_steps ! 2) (initial_results t ?sr2) = Inr ?o2"
    unfolding cr_def by (rule collective_reasoning_step [where sr = ?sr2]) simp_all
  have e3: "execute_step ?W (define_steps ! 3) (initial_results t ?sr3) = Inr ?o3"
    by (rule consensus_proposal_step [OF assms])
  have e4: "execute_step ?W (define_steps ! 4) (initial_results t ?sr4) = Inr ?o4"
    unfolding votes_def by (rule voting_step [where sr = ?sr4]) simp_all
  have e5: "execute_step ?W (define_steps ! 5) (initial_results t ?sr5) = Inr ?o5"
    by (rule quantum_escalation_step [where sr = ?sr5 and votes = votes]) simp_all
  have c_nc: "should_continue (define_steps ! 1) nc"
    by (simp add: nc_def should_continue_def dict_get_def)
  have u1: "AList.update ''neighbor_consultation'' (PDict nc) ?sr1 = ?sr2" by simp
  have u2: "AList.update ''collective_reasoning'' (PDict ?o2) ?sr2 = ?sr3" by simp
  have u3: "AList.update ''consensus_proposal'' (PDict ?o3) ?sr3 = ?sr4" by simp
  have u4: "AList.update ''voting'' (PDict ?o4) ?sr4 = ?sr5" by simp
  have u5: "AList.update ''quantum_escalation'' (PDict ?o5) ?sr5 = ?sr6" by simp
  have r5: "run_steps ?W [define_steps ! 5] (initial_results t ?sr5) = Inr (initial_results t ?sr6)"
    by (simp only: run_steps_Cons e5 builtin_names u5 sum.case run_steps.simps(1))
       (simp add: should_continue_def dict_get_def)
  have r4: "run_steps ?W [define_steps ! 4, define_steps ! 5] (initial_results t ?sr4) =
      Inr (initial_results t ?sr6)"
    by (simp only: run_steps_Cons [of _ "define_steps ! 4"] e4 builtin_names u4 sum.case r5)
       (simp add: should_continue_def dict_get_def)
  have r3: "run_steps ?W [define_steps ! 3, define_steps ! 4, define_steps ! 5]
      (initial_results t ?sr3) = Inr (initial_results t ?sr6)"
    by (simp only: run_steps_Cons [of _ "define_steps ! 3"] e3 builtin_names u3 sum.case r4)
       (simp add: should_continue_def dict_get_def)
  have r2: "run_steps ?W [define_steps ! 2, define_steps ! 3, define_steps ! 4, define_steps ! 5]
      (initial_results t ?sr2) = Inr (initial_results t ?sr6)"
    by (simp only: run_steps_Cons [of _ "define_steps ! 2"] e2 builtin_names u2 sum.case r3)
       (simp add: should_continue_def dict_get_def)
  have r1: "run_steps ?W [define_steps ! 1, define_steps ! 2, define_steps ! 3, define_steps ! 4,
      define_steps ! 5] (initial_results t ?sr1) = Inr (initial_results t ?sr6)"
    by (simp only: run_steps_Cons [of _ "define_steps ! 1"] e1 builtin_names u1 sum.case r2 c_nc if_True)
  have r0: "run_steps ?W [define_steps ! 0, define_steps ! 1, define_steps ! 2, define_steps ! 3,
      define_steps ! 4, define_steps ! 5] (initial_results t []) = Inr (initial_results t ?sr6)"
    by (simp only: run_steps_Cons [of _ "define_steps ! 0"] e0 builtin_names sum.case
          AList.update.simps r1)
       (simp add: should_continue_def dict_get_def r1)
  have "execute ?W t = run_steps ?W define_steps (initial_results t [])"
    by (simp add: execute_def OutbreakDetectionWorkflow_def initial_results_def)
  also have "\<dots> = Inr (initial_results t ?sr6)"
    using r0 builtin_steps by simp
  finally show ?thesis
    by (simp add: la_def nc_def cr_def votes_def)
qed


lemma empty_registry_run:
  assumes "agents orch = []"
  shows "execute (OutbreakDetectionWorkflow (Some orch)) t =
    Inr (initial_results t
     [(''local_analysis'', PDict [(''parallel_results'', PDict [])]),
      (''neighbor_consultation'',
         PDict [(''skipped'', PBool True),
                (''reason'', PStr ''Condition not met: anomaly_detected == true'')]),
      (''collective_reasoning'', PDict [(''parallel_results'', PDict [])]),
      (''consensus_proposal'', PDict [(''error'', PStr ''max() arg is an empty sequence'')])])"
  using assms by (simp add: run_simps initial_results_def)

lemma reports_high_risk_entry:
  "reports_high_risk (agent_entry a ''analyze_symptoms'' ctx) \<longleftrightarrow>
     risk_level a = Inr (PStr ''high'') \<or> risk_level a = Inr (PStr ''critical'')"
  by (auto simp add: reports_high_risk_def agent_entry_def execute_agent_action_def
      split: sum.splits)

lemma anomaly_among_agents:
  assumes "distinct (map fst selected)"
  shows "(\<exists>v\<in>snd ` set (run_parallel selected ''analyze_symptoms'' ctx []). reports_high_risk v) \<longleftrightarrow>
     (\<exists>a\<in>snd ` set selected.
        risk_level a = Inr (PStr ''high'') \<or> risk_level a = Inr (PStr ''critical''))"
proof -
  have "run_parallel selected ''analyze_symptoms'' ctx [] =
      map (\<lambda>(agent_id, agent). (agent_id, agent_entry agent ''analyze_symptoms'' ctx)) selected"
    using run_parallel_distinct [OF assms, of "[]"] by simp
  then show ?thesis
    by (force simp add: reports_high_risk_entry image_iff)
qed

text \<open>
  C6. In every run of the built-in workflow over a non-empty agent registry, whatever the
  trigger payload, the \<^verbatim>\<open>quantum_escalation\<close> step is reached and its recorded outcome is
  Skipped with the reason \<^verbatim>\<open>Condition not met: consensus_reached == true\<close>. The outcome
  recorded for \<^verbatim>\<open>voting\<close> is a \<^verbatim>\<open>parallel_results\<close> dictionary with one fixed vote payload
  per agent and no \<^verbatim>\<open>consensus_reached\<close> key, so the consensus predicate is false on the
  report and the escalate action is not executed.
\<close>

theorem quantum_escalation_always_skipped:
  assumes "agents orch \<noteq> []"
  shows "\<exists>report votes.
     execute (OutbreakDetectionWorkflow (Some orch)) trigger_data = Inr report \<and>
     map_of (step_results_of report) ''voting'' =
       Some (PDict [(''parallel_results'', PDict votes)]) \<and>
     fst ` set votes = fst ` set (agents orch) \<and>
     (\<forall>entry\<in>snd ` set votes.
        entry = PDict [(''action'', PStr ''vote''), (''vote'', PStr ''approve'')]) \<and>
     map_of [(''parallel_results'', PDict votes)] ''consensus_reached'' = None \<and>
     evaluate_condition ''consensus_reached == true'' report = Inr (PBool False) \<and>
     map_of (step_results_of report) ''quantum_escalation'' =
       Some (PDict [(''skipped'', PBool True),
                    (''reason'', PStr ''Condition not met: consensus_reached == true'')])"
proof -
  let ?votes = "run_parallel (agents orch) ''vote'' [] []"
  have keys: "fst ` set ?votes = fst ` set (agents orch)"
    by (simp add: run_parallel_keys)
  have payload: "\<forall>entry\<in>snd ` set ?votes.
      entry = PDict [(''action'', PStr ''vote''), (''vote'', PStr ''approve'')]"
  proof
    fix entry assume "entry \<in> snd ` set ?votes"
    from run_parallel_values [OF this]
    obtain a where "entry = agent_entry a ''vote'' []" by auto
    then show "entry = PDict [(''action'', PStr ''vote''), (''vote'', PStr ''approve'')]"
      by (simp add: agent_entry_def execute_agent_action_def)
  qed
  show ?thesis
    using builtin_run [OF assms, of trigger_data] keys payload
    by (simp add: evaluate_condition_def sublist_Cons_right dict_get_def initial_results_def
        step_results_of_def)
qed

theorem quantum_escalation_always_skipped_witness:
  "agents \<lparr>agents = example_agents\<rparr> \<noteq> [] \<and>
   (\<exists>report votes.
     execute three_agents (PStr ''fever'') = Inr report \<and>
     map_of (step_results_of report) ''voting'' =
       Some (PDict [(''parallel_results'', PDict votes)]) \<and>
     fst ` set votes = {''pune'', ''nashik'', ''satara''} \<and>
     map_of (step_results_of report) ''quantum_escalation'' =
       Some (PDict [(''skipped'', PBool True),
                    (''reason'', PStr ''Condition not met: consensus_reached == true'')]))"
proof -
  have ne: "agents \<lparr>agents = example_agents\<rparr> \<noteq> []" by (simp add: example_agents_def)
  from quantum_escalation_always_skipped [OF ne, of "PStr ''fever''"]
  obtain report votes where
    "execute three_agents (PStr ''fever'') = Inr report"
    "map_of (step_results_of report) ''voting'' = Some (PDict [(''parallel_results'', PDict votes)])"
    "fst ` set votes = fst ` set example_agents"
    "map_of (step_results_of report) ''quantum_escalation'' =
       Some (PDict [(''skipped'', PBool True),
                    (''reason'', PStr ''Condition not met: consensus_reached == true'')])"
    unfolding three_agents_def by auto
  moreover have "fst ` set example_agents = {''pune'', ''nashik'', ''satara''}"
    by (simp add: example_agents_def)
  ultimately show ?thesis using ne by auto
qed


text \<open>
  C7. In a context whose step results either lack \<^verbatim>\<open>local_analysis\<close> or record for it a
  \<^verbatim>\<open>parallel_results\<close> dictionary of per-agent dictionaries, the anomaly predicate returns
  without raising, and it is true exactly when some entry reports the risk level
  \<^verbatim>\<open>high\<close> or \<^verbatim>\<open>critical\<close>; it is false when \<^verbatim>\<open>local_analysis\<close> is absent. The
  \<^verbatim>\<open>neighbor_consultation\<close> step then runs when the predicate is true and is Skipped with
  \<^verbatim>\<open>Condition not met: anomaly_detected == true\<close> when it is false. In a run of the built-in
  workflow over a registry with distinct agent ids, \<^verbatim>\<open>neighbor_consultation\<close> runs exactly
  when some agent's risk level is \<^verbatim>\<open>high\<close> or \<^verbatim>\<open>critical\<close>.
\<close>

theorem anomaly_predicate:
  assumes "dict_get ctx ''step_results'' (PDict []) = PDict sr"
    and "map_of sr ''local_analysis'' = None \<and> entries = [] \<or>
         map_of sr ''local_analysis'' = Some (PDict [(''parallel_results'', PDict entries)]) \<and>
         (\<forall>v\<in>snd ` set entries. \<exists>d. v = PDict d)"
    and "distinct (map fst (agents orch))"
  shows "evaluate_condition ''anomaly_detected == true'' ctx =
           Inr (PBool (\<exists>v\<in>snd ` set entries. reports_high_risk v)) \<and>
         execute_step (OutbreakDetectionWorkflow (Some orch)) (define_steps ! 1) ctx =
           Inr (if \<exists>v\<in>snd ` set entries. reports_high_risk v
                then [(''parallel_results'',
                       PDict (run_parallel (agents orch) ''query_neighbors'' [] []))]
                else [(''skipped'', PBool True),
                      (''reason'', PStr ''Condition not met: anomaly_detected == true'')]) \<and>
         map_of (step_results_of (projr (execute (OutbreakDetectionWorkflow (Some orch)) t)))
             ''neighbor_consultation'' =
           Some (PDict
             (if \<exists>a\<in>snd ` set (agents orch).
                   risk_level a = Inr (PStr ''high'') \<or> risk_level a = Inr (PStr ''critical'')
              then [(''parallel_results'',
                     PDict (run_parallel (agents orch) ''query_neighbors'' [] []))]
              else [(''skipped'', PBool True),
                    (''reason'', PStr ''Condition not met: anomaly_detected == true'')]))"
proof -
  let ?W = "OutbreakDetectionWorkflow (Some orch)"
  have pred: "evaluate_condition ''anomaly_detected == true'' ctx =
      Inr (PBool (\<exists>v\<in>snd ` set entries. reports_high_risk v))"
    using assms(2)
  proof
    assume "map_of sr ''local_analysis'' = None \<and> entries = []"
    then show ?thesis using assms(1) by (simp add: evaluate_condition_def dict_get_def)
  next
    assume a: "map_of sr ''local_analysis'' = Some (PDict [(''parallel_results'', PDict entries)]) \<and>
         (\<forall>v\<in>snd ` set entries. \<exists>d. v = PDict d)"
    then show ?thesis
      using assms(1) any_high_risk_dicts [of "map snd entries"]
      by (simp add: evaluate_condition_def dict_get_def)
  qed
  then have step: "execute_step ?W (define_steps ! 1) ctx =
      Inr (if \<exists>v\<in>snd ` set entries. reports_high_risk v
           then [(''parallel_results'', PDict (run_parallel (agents orch) ''query_neighbors'' [] []))]
           else [(''skipped'', PBool True),
                 (''reason'', PStr ''Condition not met: anomaly_detected == true'')])"
    using run_parallel_context [of "agents orch" "''query_neighbors''" ctx "[]"]
    by (simp add: execute_step_def define_steps_def unmet_condition_def select_agents_def
        OutbreakDetectionWorkflow_def)
  have run: "map_of (step_results_of (projr (execute ?W t))) ''neighbor_consultation'' =
      Some (PDict
        (if \<exists>a\<in>snd ` set (agents orch).
              risk_level a = Inr (PStr ''high'') \<or> risk_level a = Inr (PStr ''critical'')
         then [(''parallel_results'', PDict (run_parallel (agents orch) ''query_neighbors'' [] []))]
         else [(''skipped'', PBool True),
               (''reason'', PStr ''Condition not met: anomaly_detected == true'')]))"
  proof (cases "agents orch = []")
    case True
    then show ?thesis using empty_registry_run [OF True, of t] by simp
  next
    case False
    show ?thesis
      using builtin_run [OF False, of t] anomaly_among_agents [OF assms(3), of "[]"]
      by simp
  qed
  show ?thesis using pred step run by simp
qed

theorem anomaly_predicate_witness:
  "evaluate_condition ''anomaly_detected == true'' analysed_context = Inr (PBool True) \<and>
   execute_step three_agents (define_steps ! 1) analysed_context =
     Inr [(''parallel_results'', PDict
       [(''pune'', PDict [(''action'', PStr ''query_neighbors''), (''neighbors_queried'', PBool True)]),
        (''nashik'', PDict [(''action'', PStr ''query_neighbors''), (''neighbors_queried'', PBool True)]),
        (''satara'', PDict [(''action'', PStr ''query_neighbors''), (''neighbors_queried'', PBool True)])])] \<and>
   evaluate_condition ''anomaly_detected == true'' (initial_results PNone []) = Inr (PBool False) \<and>
   map_of (step_results_of (projr (execute (OutbreakDetectionWorkflow (Some \<lparr>agents = calm_agents\<rparr>))
       PNone))) ''neighbor_consultation'' =
     Some (PDict [(''skipped'', PBool True),
                  (''reason'', PStr ''Condition not met: anomaly_detected == true'')])"
proof -
  let ?entries = "[(''pune'', PDict [(''action'', PStr ''analyze_symptoms''), (''risk_level'', PStr ''low'')]),
          (''nashik'', PDict [(''action'', PStr ''analyze_symptoms''),
                              (''risk_level'', PStr ''critical'')]),
          (''satara'', PDict [(''error'', PStr ''sensor offline'')])]"
  let ?sr = "[(''local_analysis'', PDict [(''parallel_results'', PDict ?entries)])]"
  have 1: "dict_get analysed_context ''step_results'' (PDict []) = PDict ?sr"
    by (simp add: analysed_context_def)
  have 2: "map_of ?sr ''local_analysis'' = None \<and> ?entries = [] \<or>
         map_of ?sr ''local_analysis'' = Some (PDict [(''parallel_results'', PDict ?entries)]) \<and>
         (\<forall>v\<in>snd ` set ?entries. \<exists>d. v = PDict d)"
    by simp
  have 3: "distinct (map fst (agents \<lparr>agents = example_agents\<rparr>))"
    by (simp add: example_agents_def)
  have 4: "dict_get (initial_results PNone []) ''step_results'' (PDict []) = PDict []"
    by simp
  have 5: "map_of [] ''local_analysis'' = None \<and> ([] :: dict) = [] \<or>
         map_of [] ''local_analysis'' = Some (PDict [(''parallel_results'', PDict [])]) \<and>
         (\<forall>v\<in>snd ` set ([] :: dict). \<exists>d. v = PDict d)"
    by simp
  have 6: "distinct (map fst (agents \<lparr>agents = calm_agents\<rparr>))"
    by (simp add: calm_agents_def)
  from anomaly_predicate [OF 1 2 3, of PNone]
  have a: "evaluate_condition ''anomaly_detected == true'' analysed_context = Inr (PBool True) \<and>
     execute_step three_agents (define_steps ! 1) analysed_context =
       Inr [(''parallel_results'', PDict (run_parallel example_agents ''query_neighbors'' [] []))]"
    by (simp add: reports_high_risk_def three_agents_def)
  from anomaly_predicate [OF 4 5 6, of PNone]
  have b: "evaluate_condition ''anomaly_detected == true'' (initial_results PNone []) =
       Inr (PBool False) \<and>
     map_of (step_results_of (projr (execute (OutbreakDetectionWorkflow
        (Some \<lparr>agents = calm_agents\<rparr>)) PNone))) ''neighbor_consultation'' =
       Some (PDict [(''skipped'', PBool True),
                  (''reason'', PStr ''Condition not met: anomaly_detected == true'')])"
    by (simp add: calm_agents_def)
  from a b show ?thesis
    by (simp add: example_agents_def agent_entry_def execute_agent_action_def)
qed


section \<open>Dependencies on skipped steps\<close>

text \<open>
  C10. A dependency is met as soon as its name is a key of the recorded step results,
  whatever the outcome recorded under it. In particular, in a context where
  \<^verbatim>\<open>neighbor_consultation\<close> is recorded as Skipped, \<^verbatim>\<open>collective_reasoning\<close> is not skipped:
  it invokes its action on every agent and records their results. So in a run of the
  built-in workflow in which no agent reports a high or critical risk level,
  \<^verbatim>\<open>neighbor_consultation\<close> is Skipped and \<^verbatim>\<open>collective_reasoning\<close> is executed.
\<close>

theorem skipped_dependency_counts_as_met:
  assumes "dict_get ctx ''step_results'' (PDict []) = PDict sr"
  shows "(set deps \<subseteq> fst ` set sr \<longrightarrow> missing_dependency deps ctx = Inr None) \<and>
         (map_of sr ''neighbor_consultation'' =
              Some (PDict [(''skipped'', PBool True), (''reason'', PStr r)]) \<longrightarrow>
            execute_step (OutbreakDetectionWorkflow (Some orch)) (define_steps ! 2) ctx =
              Inr [(''parallel_results'',
                    PDict (run_parallel (agents orch) ''reason_about_collective_evidence'' [] []))]) \<and>
         (agents orch \<noteq> [] \<and> distinct (map fst (agents orch)) \<and>
          (\<forall>a\<in>snd ` set (agents orch).
              risk_level a \<noteq> Inr (PStr ''high'') \<and> risk_level a \<noteq> Inr (PStr ''critical'')) \<longrightarrow>
            map_of (step_results_of (projr (execute (OutbreakDetectionWorkflow (Some orch)) t)))
                ''neighbor_consultation'' =
              Some (PDict [(''skipped'', PBool True),
                           (''reason'', PStr ''Condition not met: anomaly_detected == true'')]) \<and>
            map_of (step_results_of (projr (execute (OutbreakDetectionWorkflow (Some orch)) t)))
                ''collective_reasoning'' =
              Some (PDict [(''parallel_results'',
                    PDict (run_parallel (agents orch) ''reason_about_collective_evidence'' [] []))]))"
proof -
  have general: "missing_dependency deps ctx = Inr None" if "set deps \<subseteq> fst ` set sr"
  proof -
    have "find (\<lambda>dep. dep \<notin> fst ` set sr) deps = None"
      using that by (auto simp add: find_None_iff)
    then show ?thesis using missing_dependency_find [OF assms, of deps] by simp
  qed
  have particular: "execute_step (OutbreakDetectionWorkflow (Some orch)) (define_steps ! 2) ctx =
      Inr [(''parallel_results'',
            PDict (run_parallel (agents orch) ''reason_about_collective_evidence'' [] []))]"
    if "map_of sr ''neighbor_consultation'' =
          Some (PDict [(''skipped'', PBool True), (''reason'', PStr r)])"
  proof -
    have "''neighbor_consultation'' \<in> fst ` set sr"
      using that by (metis map_of_eq_None_iff option.distinct(1))
    from collective_reasoning_step [OF assms this] show ?thesis .
  qed
  have run: "map_of (step_results_of (projr (execute (OutbreakDetectionWorkflow (Some orch)) t)))
                ''neighbor_consultation'' =
              Some (PDict [(''skipped'', PBool True),
                           (''reason'', PStr ''Condition not met: anomaly_detected == true'')]) \<and>
            map_of (step_results_of (projr (execute (OutbreakDetectionWorkflow (Some orch)) t)))
                ''collective_reasoning'' =
              Some (PDict [(''parallel_results'',
                    PDict (run_parallel (agents orch) ''reason_about_collective_evidence'' [] []))])"
    if ne: "agents orch \<noteq> []" and d: "distinct (map fst (agents orch))"
      and calm: "\<forall>a\<in>snd ` set (agents orch).
              risk_level a \<noteq> Inr (PStr ''high'') \<and> risk_level a \<noteq> Inr (PStr ''critical'')"
  proof -
    have "\<not> (\<exists>v\<in>snd ` set (run_parallel (agents orch) ''analyze_symptoms'' [] []).
        reports_high_risk v)"
      using anomaly_among_agents [OF d, of "[]"] calm by blast
    then show ?thesis using builtin_run [OF ne, of t] by simp
  qed
  show ?thesis using general particular run by blast
qed

theorem skipped_dependency_counts_as_met_witness:
  "map_of (step_results_of (projr (execute (OutbreakDetectionWorkflow (Some \<lparr>agents = calm_agents\<rparr>))
       PNone))) ''neighbor_consultation'' =
     Some (PDict [(''skipped'', PBool True),
                  (''reason'', PStr ''Condition not met: anomaly_detected == true'')]) \<and>
   map_of (step_results_of (projr (execute (OutbreakDetectionWorkflow (Some \<lparr>agents = calm_agents\<rparr>))
       PNone))) ''collective_reasoning'' =
     Some (PDict [(''parallel_results'', PDict
       [(''pune'', PDict [(''action'', PStr ''reason_about_collective_evidence''),
                          (''status'', PStr ''completed'')]),
        (''wardha'', PDict [(''action'', PStr ''reason_about_collective_evidence''),
                            (''status'', PStr ''completed'')])])]) \<and>
   execute_step (OutbreakDetectionWorkflow (Some \<lparr>agents = calm_agents\<rparr>)) (define_steps ! 2)
       (initial_results PNone
          [(''neighbor_consultation'',
            PDict [(''skipped'', PBool True), (''reason'', PStr ''no anomaly'')])]) =
     Inr [(''parallel_results'', PDict
       [(''pune'', PDict [(''action'', PStr ''reason_about_collective_evidence''),
                          (''status'', PStr ''completed'')]),
        (''wardha'', PDict [(''action'', PStr ''reason_about_collective_evidence''),
                            (''status'', PStr ''completed'')])])] \<and>
   missing_dependency [''neighbor_consultation'']
       (initial_results PNone
          [(''neighbor_consultation'',
            PDict [(''skipped'', PBool True), (''reason'', PStr ''no anomaly'')])]) = Inr None"
proof -
  let ?sr = "[(''neighbor_consultation'',
            PDict [(''skipped'', PBool True), (''reason'', PStr ''no anomaly'')])]"
  have 1: "dict_get (initial_results PNone ?sr) ''step_results'' (PDict []) = PDict ?sr"
    by simp
  from skipped_dependency_counts_as_met
    [OF 1, of "[''neighbor_consultation'']" "''no anomaly''" "\<lparr>agents = calm_agents\<rparr>" PNone]
  show ?thesis
    by (simp add: calm_agents_def agent_entry_def execute_agent_action_def)
qed


section \<open>Timeouts\<close>

text \<open>
  The \<^verbatim>\<open>timeout\<close> field of a step is declared and set by the built-in steps, and never
  read: the outcome of a step does not depend on it.
\<close>

lemma timeout_not_consulted:
  "execute_step self (step\<lparr>timeout := n\<rparr>) ctx = execute_step self step ctx"
proof -
  have "unmet_condition (step\<lparr>timeout := n\<rparr>) ctx = unmet_condition step ctx"
    by (simp add: unmet_condition_def)
  moreover have "select_agents self (step\<lparr>timeout := n\<rparr>) = select_agents self step"
    by (cases "orchestrator self") (simp_all add: select_agents_def Let_def cong: if_cong)
  ultimately show ?thesis
    by (simp add: execute_step_def cong: sum.case_cong option.case_cong if_cong list.case_cong)
qed

end
